theory Spec2Isabelle
  imports Main "HOL-Library.Word"
begin

section \<open>The schema proxy of the MATLAB interface (tabular/proxy/schema.cc)\<close>

text \<open>
  The proxy class \<open>arrow::matlab::tabular::proxy::Schema\<close> holds one
  \<open>std::shared_ptr<arrow::Schema>\<close> and offers five methods to the host:
  \<open>getFieldByIndex\<close>, \<open>getFieldByName\<close>, \<open>getNumFields\<close>, \<open>getFieldNames\<close> and
  \<open>toString\<close>, together with the factory \<open>make\<close>.  Each method receives a
  \<open>libmexclass::proxy::method::Context\<close> and either writes \<open>context.outputs[0]\<close> or sets
  \<open>context.error\<close>.  The process-wide \<open>ProxyManager\<close> is threaded through the
  methods as explicit state.
\<close>

subsection \<open>Machine types and strings\<close>

type_synonym int32_t = "32 word"
type_synonym uint64_t = "64 word"
type_synonym size_t = "64 word"

text \<open>\<open>std::string\<close> is a sequence of bytes, \<open>std::u16string\<close> a sequence of
  16-bit code units.\<close>

type_synonym u16string = "16 word list"

text \<open>A \<open>std::shared_ptr\<close> may be null.\<close>

datatype 'a shared_ptr = nullptr | ptr 'a

subsection \<open>Printing an \<open>int\<close> to a \<open>std::stringstream\<close>\<close>

text \<open>\<open>operator<<\<close> on an \<open>int\<close> writes the decimal digits, with a leading minus
  sign for a negative value.\<close>

definition digit_char :: "nat \<Rightarrow> char" where
  "digit_char d = char_of (48 + d)"

function string_of_nat :: "nat \<Rightarrow> string" where
  "string_of_nat n =
     (if n < 10 then [digit_char n]
      else string_of_nat (n div 10) @ [digit_char (n mod 10)])"
  by pat_completeness auto
termination
  by (relation "measure id") auto

declare string_of_nat.simps [simp del]

definition string_of_int :: "int \<Rightarrow> string" where
  "string_of_int i =
     (if i < 0 then CHR ''-'' # string_of_nat (nat (- i)) else string_of_nat (nat i))"

text \<open>Reading a decimal numeral back, to state what the rendering denotes.\<close>

definition digit_value :: "char \<Rightarrow> nat" where
  "digit_value c = of_char c - 48"

definition nat_of_decimal :: "string \<Rightarrow> nat" where
  "nat_of_decimal s = foldl (\<lambda>a c. 10 * a + digit_value c) 0 s"

definition int_of_decimal :: "string \<Rightarrow> int" where
  "int_of_decimal s =
     (case s of
        [] \<Rightarrow> 0
      | c # r \<Rightarrow> if c = CHR ''-'' then - int (nat_of_decimal r) else int (nat_of_decimal s))"

subsection \<open>Conversion between UTF-8 and UTF-16 (\<open>arrow/util/utf8.h\<close>)\<close>

text \<open>An \<open>arrow::Status\<close> is either OK or carries a message; a failed
  \<open>arrow::Result\<close> is \<open>Inl\<close> of its status.\<close>

datatype Status = OK | Invalid string

fun ok :: "Status \<Rightarrow> bool" where
  "ok OK = True"
| "ok (Invalid m) = False"

fun status_message :: "Status \<Rightarrow> string" where
  "status_message OK = []"
| "status_message (Invalid m) = m"

type_synonym 'a Result = "Status + 'a"

text \<open>Unicode scalar values: the code points up to \<open>0x10FFFF\<close> that are not
  surrogates.\<close>

definition is_surrogate :: "nat \<Rightarrow> bool" where
  "is_surrogate cp = (0xD800 \<le> cp \<and> cp < 0xE000)"

definition is_scalar_value :: "nat \<Rightarrow> bool" where
  "is_scalar_value cp = (cp < 0x110000 \<and> \<not> is_surrogate cp)"

definition is_continuation :: "nat \<Rightarrow> bool" where
  "is_continuation b = (0x80 \<le> b \<and> b < 0xC0)"

text \<open>One code point as UTF-8 bytes and as UTF-16 code units.\<close>

definition utf8_encode :: "nat \<Rightarrow> nat list" where
  "utf8_encode cp =
     (if cp < 0x80 then [cp]
      else if cp < 0x800 then [0xC0 + cp div 64, 0x80 + cp mod 64]
      else if cp < 0x10000 then
        [0xE0 + cp div 4096, 0x80 + cp div 64 mod 64, 0x80 + cp mod 64]
      else
        [0xF0 + cp div 262144, 0x80 + cp div 4096 mod 64,
         0x80 + cp div 64 mod 64, 0x80 + cp mod 64])"

definition utf16_encode :: "nat \<Rightarrow> nat list" where
  "utf16_encode cp =
     (if cp < 0x10000 then [cp]
      else [0xD800 + (cp - 0x10000) div 1024, 0xDC00 + (cp - 0x10000) mod 1024])"

text \<open>Reading one code point from the front of a byte sequence.  Overlong forms,
  surrogates, values beyond \<open>0x10FFFF\<close>, stray continuation bytes and truncated
  sequences are refused.\<close>

fun utf8_next :: "nat list \<Rightarrow> (nat \<times> nat list) option" where
  "utf8_next [] = None"
| "utf8_next (b0 # bs) =
     (if b0 < 0x80 then Some (b0, bs)
      else if b0 < 0xC0 then None
      else if b0 < 0xE0 then
        (case bs of
           b1 # r \<Rightarrow>
             (let cp = (b0 - 0xC0) * 64 + (b1 - 0x80)
              in if is_continuation b1 \<and> 0x80 \<le> cp then Some (cp, r) else None)
         | _ \<Rightarrow> None)
      else if b0 < 0xF0 then
        (case bs of
           b1 # b2 # r \<Rightarrow>
             (let cp = (b0 - 0xE0) * 4096 + (b1 - 0x80) * 64 + (b2 - 0x80)
              in if is_continuation b1 \<and> is_continuation b2 \<and> 0x800 \<le> cp
                    \<and> \<not> is_surrogate cp
                 then Some (cp, r) else None)
         | _ \<Rightarrow> None)
      else if b0 < 0xF8 then
        (case bs of
           b1 # b2 # b3 # r \<Rightarrow>
             (let cp = (b0 - 0xF0) * 262144 + (b1 - 0x80) * 4096
                        + (b2 - 0x80) * 64 + (b3 - 0x80)
              in if is_continuation b1 \<and> is_continuation b2 \<and> is_continuation b3
                    \<and> 0x10000 \<le> cp \<and> cp < 0x110000
                 then Some (cp, r) else None)
         | _ \<Rightarrow> None)
      else None)"

text \<open>Reading one code point from the front of a sequence of UTF-16 code units.  A
  lone surrogate is refused.\<close>

fun utf16_next :: "nat list \<Rightarrow> (nat \<times> nat list) option" where
  "utf16_next [] = None"
| "utf16_next (u # us) =
     (if \<not> is_surrogate u then Some (u, us)
      else if u < 0xDC00 then
        (case us of
           l # r \<Rightarrow>
             (if 0xDC00 \<le> l \<and> l < 0xE000
              then Some (0x10000 + (u - 0xD800) * 1024 + (l - 0xDC00), r)
              else None)
         | [] \<Rightarrow> None)
      else None)"

lemma utf8_next_shorter: "utf8_next bs = Some (cp, r) \<Longrightarrow> length r < length bs"
  by (cases bs) (auto split: if_splits list.splits simp: Let_def)

lemma utf16_next_shorter: "utf16_next us = Some (cp, r) \<Longrightarrow> length r < length us"
  by (cases us) (auto split: if_splits list.splits)

function utf8_decode :: "nat list \<Rightarrow> nat list option" where
  "utf8_decode [] = Some []"
| "utf8_decode (b # bs) =
     (case utf8_next (b # bs) of
        None \<Rightarrow> None
      | Some (cp, r) \<Rightarrow> map_option ((#) cp) (utf8_decode r))"
  by pat_completeness auto
termination
  by (relation "measure length") (auto simp del: utf8_next.simps dest: utf8_next_shorter)

function utf16_decode :: "nat list \<Rightarrow> nat list option" where
  "utf16_decode [] = Some []"
| "utf16_decode (u # us) =
     (case utf16_next (u # us) of
        None \<Rightarrow> None
      | Some (cp, r) \<Rightarrow> map_option ((#) cp) (utf16_decode r))"
  by pat_completeness auto
termination
  by (relation "measure length") (auto simp del: utf16_next.simps dest: utf16_next_shorter)

text \<open>Modelled from the spec: \<open>arrow::util::UTF8StringToUTF16\<close> is declared in
  \<open>arrow/util/utf8.h\<close>, which is not part of the sources at hand.  The spec describes
  it as a pure utility that converts UTF-8 to UTF-16 and signals conversion failure.
  The text of the failure status is the library's own and is not fixed by the spec.\<close>

definition UTF8StringToUTF16 :: "string \<Rightarrow> u16string Result" where
  "UTF8StringToUTF16 source =
     (case utf8_decode (map of_char source) of
        None \<Rightarrow> Inl (Invalid ''Invalid UTF8 sequence'')
      | Some cps \<Rightarrow> Inr (map of_nat (concat (map utf16_encode cps))))"

text \<open>Modelled from the spec: \<open>arrow::util::UTF16StringToUTF8\<close>, the converse
  conversion of the same header, which signals conversion failure in the same way.\<close>

definition UTF16StringToUTF8 :: "u16string \<Rightarrow> string Result" where
  "UTF16StringToUTF8 source =
     (case utf16_decode (map unat source) of
        None \<Rightarrow> Inl (Invalid ''Invalid UTF16 sequence'')
      | Some cps \<Rightarrow> Inr (map char_of (concat (map utf8_encode cps))))"

subsection \<open>The columnar library: \<open>arrow::Field\<close> and \<open>arrow::Schema\<close>\<close>

text \<open>A field is a descriptor of a name, a type and nullability; the proxy only ever
  reads the name.\<close>

record Field =
  name :: string
  type :: string
  nullable :: bool

text \<open>Modelled from the spec: \<open>arrow::Schema\<close> is defined in the columnar library
  (\<open>arrow/type.h\<close>), outside the sources at hand.  The spec describes it as an
  immutable ordered sequence of fields \<open>f\<^sub>0 \<dots> f\<^bsub>n-1\<^esub>\<close>.\<close>

datatype arrow_Schema = arrow_Schema (Schema_fields: "Field list")

text \<open>Modelled from the spec: \<open>arrow::schema(fields)\<close> builds a schema from the ordered
  sequence of field handles.  A null handle has no field to contribute: \<open>None\<close>.\<close>

fun unwrap_all :: "'a shared_ptr list \<Rightarrow> 'a list option" where
  "unwrap_all [] = Some []"
| "unwrap_all (nullptr # ps) = None"
| "unwrap_all (ptr x # ps) = map_option ((#) x) (unwrap_all ps)"

definition arrow_schema :: "Field shared_ptr list \<Rightarrow> arrow_Schema option" where
  "arrow_schema field_ptrs = map_option arrow_Schema (unwrap_all field_ptrs)"

text \<open>Modelled from the spec: \<open>num_fields()\<close> returns the number of fields \<open>n\<close> as the
  library's native signed 32-bit \<open>int\<close>.  The spec's data model has
  \<open>n = S.num_fields() \<ge> 0\<close>, so the count of a schema fits that type.\<close>

definition num_fields :: "arrow_Schema \<Rightarrow> int32_t" where
  "num_fields S = word_of_nat (length (Schema_fields S))"

text \<open>The schemas of the spec's data model: the number of fields is a value of the
  library's \<open>int\<close>.  For them \<open>num_fields\<close> is the number of fields; beyond, the count
  wraps around.\<close>

definition Schema_fits :: "arrow_Schema \<Rightarrow> bool" where
  "Schema_fits S = (length (Schema_fields S) < 2 ^ 31)"

text \<open>Modelled from the spec: \<open>field(i)\<close> is 0-based and performs no bounds check.  A
  read outside \<open>0 \<dots> n-1\<close> has no defined result: \<open>None\<close>.\<close>

definition Schema_field :: "arrow_Schema \<Rightarrow> int32_t \<Rightarrow> Field shared_ptr option" where
  "Schema_field S i =
     (if 0 \<le> sint i \<and> nat (sint i) < length (Schema_fields S)
      then Some (ptr (Schema_fields S ! nat (sint i))) else None)"

text \<open>Modelled from the spec: \<open>field_names()\<close> gives the UTF-8 names in field order.\<close>

definition field_names :: "arrow_Schema \<Rightarrow> string list" where
  "field_names S = map name (Schema_fields S)"

text \<open>Modelled from the spec: \<open>GetFieldByName(name)\<close> retrieves the field by name; it
  has a field to return when exactly one field carries the name, and returns a null
  handle otherwise.\<close>

definition GetAllFieldsByName :: "arrow_Schema \<Rightarrow> string \<Rightarrow> Field list" where
  "GetAllFieldsByName S nm = filter (\<lambda>f. name f = nm) (Schema_fields S)"

definition GetFieldByName :: "arrow_Schema \<Rightarrow> string \<Rightarrow> Field shared_ptr" where
  "GetFieldByName S nm =
     (case GetAllFieldsByName S nm of [f] \<Rightarrow> ptr f | _ \<Rightarrow> nullptr)"

text \<open>Modelled from the spec: \<open>CanReferenceFieldsByNames(names)\<close> signals ambiguity or
  absence: it is OK when every listed name can be referenced unambiguously, and fails
  at the first name that is absent or matches more than one field.  The text of the
  failure status is the library's own and is not fixed by the spec.\<close>

definition CanReferenceFieldsByNames :: "arrow_Schema \<Rightarrow> string list \<Rightarrow> Status" where
  "CanReferenceFieldsByNames S names =
     (case filter (\<lambda>nm. length (GetAllFieldsByName S nm) \<noteq> 1) names of
        [] \<Rightarrow> OK
      | nm # _ \<Rightarrow>
          Invalid (''Field named '' @ [CHR 0x27] @ nm @ [CHR 0x27]
                   @ '' not found or not unique in the schema.''))"

subsection \<open>The proxy registry (\<open>libmexclass::proxy::ProxyManager\<close>)\<close>

text \<open>The proxies a registry can hold: field proxies (wrapping a field handle), schema
  proxies (wrapping a schema handle) and proxies of other classes.\<close>

datatype Proxy =
    FieldProxy "Field shared_ptr"
  | SchemaProxy "arrow_Schema shared_ptr"
  | OtherProxy nat

text \<open>Modelled from the spec: the registry is a process-wide map from identifiers to
  handles, of a library outside the sources at hand.  Registration yields an opaque
  64-bit identifier of a fresh entry; here identifiers are handed out by a counter.\<close>

record ProxyManager =
  proxy_map :: "uint64_t \<rightharpoonup> Proxy"
  current_proxy_id :: uint64_t

definition manageProxy :: "ProxyManager \<Rightarrow> Proxy \<Rightarrow> uint64_t \<times> ProxyManager" where
  "manageProxy pm proxy =
     (current_proxy_id pm,
      pm\<lparr>proxy_map := (proxy_map pm)(current_proxy_id pm \<mapsto> proxy),
         current_proxy_id := current_proxy_id pm + 1\<rparr>)"

definition getProxy :: "ProxyManager \<Rightarrow> uint64_t \<Rightarrow> Proxy option" where
  "getProxy pm proxy_id = proxy_map pm proxy_id"

text \<open>Every identifier in use was handed out by the counter, and the counter has
  not yet run through all 64-bit values.\<close>

definition ProxyManager_ok :: "ProxyManager \<Rightarrow> bool" where
  "ProxyManager_ok pm =
     ((\<forall>i. i \<in> dom (proxy_map pm) \<longrightarrow> i < current_proxy_id pm)
      \<and> current_proxy_id pm \<noteq> - 1)"

subsection \<open>Host values, errors and the method-call context\<close>

text \<open>The values of the host's marshalling layer (\<open>matlab::data\<close>) that the methods
  create: scalars, and a string array with its dimensions.\<close>

datatype Array =
    Int32Scalar int32_t
  | UInt64Scalar uint64_t
  | StringScalar u16string
  | StringArray "size_t list" "u16string list"

text \<open>Modelled from the spec: the error identifiers are string constants of
  \<open>arrow/matlab/error/error.h\<close>, which is not part of the sources at hand; the spec
  lists the five identifiers this class uses as stable, distinguishable names.\<close>

datatype ErrorID =
    ARROW_TABULAR_SCHEMA_UNKNOWN_FIELD_NAME
  | ARROW_TABULAR_SCHEMA_NUMERIC_FIELD_INDEX_WITH_EMPTY_SCHEMA
  | ARROW_TABULAR_SCHEMA_INVALID_NUMERIC_FIELD_INDEX
  | ARROW_TABULAR_SCHEMA_AMBIGUOUS_FIELD_NAME
  | UNICODE_CONVERSION_ERROR_ID

text \<open>\<open>libmexclass::error::Error{id, message}\<close>.\<close>

record Error =
  error_id :: ErrorID
  message :: string

text \<open>\<open>libmexclass::proxy::method::Context\<close>: the decoded first element of the input
  struct array, the output slots and the optional error record.\<close>

record 'a Context =
  inputs :: 'a
  outputs :: "nat \<rightharpoonup> Array"
  error :: "Error option"

text \<open>The input structs of \<open>getFieldByIndex\<close> and \<open>getFieldByName\<close>: one field each,
  read as \<open>args[0]["Index"][0]\<close> and \<open>args[0]["Name"][0]\<close>.\<close>

record Index_args =
  Index :: int32_t

record Name_args =
  Name :: u16string

text \<open>Modelled from the spec: the macros \<open>MATLAB_ASSIGN_OR_ERROR_WITH_CONTEXT\<close> and
  \<open>MATLAB_ERROR_IF_NOT_OK_WITH_CONTEXT\<close> come from \<open>arrow/matlab/error/error.h\<close>.  When
  the library call fails they set \<open>context.error\<close> to an error of the given identifier
  and return from the method; the error built is the one below, carrying the
  message of the failed status.\<close>

definition status_error :: "ErrorID \<Rightarrow> Status \<Rightarrow> Error" where
  "status_error eid st = \<lparr>error_id = eid, message = status_message st\<rparr>"

subsection \<open>The methods of \<open>arrow::matlab::tabular::proxy::Schema\<close>\<close>

definition makeUnknownFieldNameError :: "string \<Rightarrow> Error" where
  "makeUnknownFieldNameError nm =
     \<lparr>error_id = ARROW_TABULAR_SCHEMA_UNKNOWN_FIELD_NAME,
      message = ''Unknown field name: '' @ [CHR 0x27] @ nm @ [CHR 0x27] @ ''.''\<rparr>"

definition makeEmptySchemaError :: Error where
  "makeEmptySchemaError =
     \<lparr>error_id = ARROW_TABULAR_SCHEMA_NUMERIC_FIELD_INDEX_WITH_EMPTY_SCHEMA,
      message = ''Numeric indexing using the field method is not supported for schemas with no fields.''\<rparr>"

text \<open>The proxy object: its only member is the schema handle, which \<open>make\<close> obtains
  from \<open>arrow::schema\<close>; it is never null and never rebound.\<close>

datatype Schema = Schema (schema: arrow_Schema)

text \<open>\<open>Schema::make\<close>.  The loop fetches each identifier's proxy from the registry,
  narrows it to a field proxy and appends the unwrapped field handle; the schema is
  built from the handles collected.  A registry miss, a proxy of another class and
  a null field handle are fatal to the construction.\<close>

datatype fatal = RegistryMiss uint64_t | NotAFieldProxy uint64_t | NullFieldHandle

fun make_fields ::
  "ProxyManager \<Rightarrow> uint64_t list \<Rightarrow> Field shared_ptr list \<Rightarrow> fatal + Field shared_ptr list"
where
  "make_fields pm [] fs = Inr fs"
| "make_fields pm (proxy_id # ids) fs =
     (case getProxy pm proxy_id of
        None \<Rightarrow> Inl (RegistryMiss proxy_id)
      | Some (FieldProxy field) \<Rightarrow> make_fields pm ids (fs @ [field])
      | Some _ \<Rightarrow> Inl (NotAFieldProxy proxy_id))"

definition Schema_make :: "ProxyManager \<Rightarrow> uint64_t list \<Rightarrow> fatal + Schema" where
  "Schema_make pm field_proxy_ids_mda =
     (case make_fields pm field_proxy_ids_mda [] of
        Inl e \<Rightarrow> Inl e
      | Inr fs \<Rightarrow>
          (case arrow_schema fs of
             None \<Rightarrow> Inl NullFieldHandle
           | Some s \<Rightarrow> Inr (Schema s)))"

definition unwrap :: "Schema \<Rightarrow> arrow_Schema" where
  "unwrap self = schema self"

text \<open>\<open>Schema::getFieldByIndex\<close>.  The result is \<open>None\<close> when the call would read
  \<open>schema->field(index)\<close> out of range, where the library defines no behaviour.  The
  offset \<open>index = matlab_index - 1\<close> is computed before the checks, in 32-bit two's
  complement: for the least \<open>int32_t\<close> it wraps around, and it is used only after the
  range check has passed.  Both comparisons of the range check are signed.\<close>

definition getFieldByIndex ::
  "Schema \<Rightarrow> ProxyManager \<Rightarrow> Index_args Context
     \<Rightarrow> (ProxyManager \<times> Index_args Context) option"
where
  "getFieldByIndex self pm context =
     (let matlab_index = Index (inputs context);
          index = matlab_index - 1;
          n = num_fields (schema self)
      in if n = 0 then
           Some (pm, context\<lparr>error := Some makeEmptySchemaError\<rparr>)
         else if sint matlab_index < 1 \<or> sint matlab_index > sint n then
           Some (pm, context\<lparr>error := Some
             \<lparr>error_id = ARROW_TABULAR_SCHEMA_INVALID_NUMERIC_FIELD_INDEX,
              message = ''Invalid field index: '' @ string_of_int (sint matlab_index)
                @ ''. Field index must be between 1 and the number of fields (''
                @ string_of_int (sint n) @ '').''\<rparr>\<rparr>)
         else
           (case Schema_field (schema self) index of
              None \<Rightarrow> None
            | Some field \<Rightarrow>
                (let field_proxy = FieldProxy field;
                     (field_proxy_id, pm') = manageProxy pm field_proxy;
                     field_proxy_id_mda = UInt64Scalar field_proxy_id
                 in Some (pm', context\<lparr>outputs := (outputs context)(0 \<mapsto> field_proxy_id_mda)\<rparr>))))"

text \<open>\<open>Schema::getFieldByName\<close>.\<close>

definition getFieldByName ::
  "Schema \<Rightarrow> ProxyManager \<Rightarrow> Name_args Context \<Rightarrow> ProxyManager \<times> Name_args Context"
where
  "getFieldByName self pm context =
     (let name_utf16 = Name (inputs context)
      in case UTF16StringToUTF8 name_utf16 of
           Inl st \<Rightarrow> (pm, context\<lparr>error := Some (status_error UNICODE_CONVERSION_ERROR_ID st)\<rparr>)
         | Inr nm \<Rightarrow>
             (let names = [nm];
                  st = CanReferenceFieldsByNames (schema self) names
              in if \<not> ok st then
                   (pm, context\<lparr>error := Some
                      (status_error ARROW_TABULAR_SCHEMA_AMBIGUOUS_FIELD_NAME st)\<rparr>)
                 else
                   (let field = GetFieldByName (schema self) nm;
                        field_proxy = FieldProxy field;
                        (field_proxy_id, pm') = manageProxy pm field_proxy;
                        field_proxy_id_mda = UInt64Scalar field_proxy_id
                    in (pm', context\<lparr>outputs := (outputs context)(0 \<mapsto> field_proxy_id_mda)\<rparr>))))"

text \<open>\<open>Schema::getNumFields\<close>.\<close>

definition getNumFields :: "Schema \<Rightarrow> 'a Context \<Rightarrow> 'a Context" where
  "getNumFields self context =
     (let n = num_fields (schema self);
          num_fields_mda = Int32Scalar n
      in context\<lparr>outputs := (outputs context)(0 \<mapsto> num_fields_mda)\<rparr>)"

text \<open>\<open>Schema::getFieldNames\<close>.  The loop converts the names in order and leaves the
  method at the first name that fails to convert.\<close>

fun convert_names :: "string list \<Rightarrow> u16string list \<Rightarrow> Status + u16string list" where
  "convert_names [] field_names_utf16 = Inr field_names_utf16"
| "convert_names (field_name_utf8 # rest) field_names_utf16 =
     (case UTF8StringToUTF16 field_name_utf8 of
        Inl st \<Rightarrow> Inl st
      | Inr field_name_utf16 \<Rightarrow> convert_names rest (field_names_utf16 @ [field_name_utf16]))"

definition getFieldNames :: "Schema \<Rightarrow> 'a Context \<Rightarrow> 'a Context" where
  "getFieldNames self context =
     (let field_names_utf8 = field_names (schema self);
          n = (scast (num_fields (schema self)) :: size_t)
      in case convert_names field_names_utf8 [] of
           Inl st \<Rightarrow> context\<lparr>error := Some (status_error UNICODE_CONVERSION_ERROR_ID st)\<rparr>
         | Inr field_names_utf16 \<Rightarrow>
             (let field_names_mda = StringArray [1, n] field_names_utf16
              in context\<lparr>outputs := (outputs context)(0 \<mapsto> field_names_mda)\<rparr>))"

text \<open>\<open>Schema::toString\<close>.  The rendering \<open>ToString\<close> is the library's; the method
  passes on whatever text it produces, so it is a parameter here.\<close>

definition toString :: "(arrow_Schema \<Rightarrow> string) \<Rightarrow> Schema \<Rightarrow> 'a Context \<Rightarrow> 'a Context" where
  "toString ToString self context =
     (let str_utf8 = ToString (schema self)
      in case UTF8StringToUTF16 str_utf8 of
           Inl st \<Rightarrow> context\<lparr>error := Some (status_error UNICODE_CONVERSION_ERROR_ID st)\<rparr>
         | Inr str_utf16 \<Rightarrow>
             (let str_mda = StringScalar str_utf16
              in context\<lparr>outputs := (outputs context)(0 \<mapsto> str_mda)\<rparr>))"

subsection \<open>Example inputs\<close>

text \<open>Schemas given by their field names, an empty registry and a fresh call context,
  for evaluating the methods on the scenarios of the specification.\<close>

definition example_field :: "string \<Rightarrow> Field" where
  "example_field nm = \<lparr>name = nm, type = ''int32'', nullable = True\<rparr>"

definition schema_of_names :: "string list \<Rightarrow> Schema" where
  "schema_of_names nms = Schema (arrow_Schema (map example_field nms))"

definition empty_registry :: ProxyManager where
  "empty_registry = \<lparr>proxy_map = Map.empty, current_proxy_id = 0\<rparr>"

definition new_Context :: "'a \<Rightarrow> 'a Context" where
  "new_Context args = \<lparr>inputs = args, outputs = Map.empty, error = None\<rparr>"

text \<open>A rendering of a schema for evaluating \<open>toString\<close>: the field names, one per
  line.\<close>

definition field_names_text :: "arrow_Schema \<Rightarrow> string" where
  "field_names_text S = concat (map (\<lambda>f. name f @ [CHR 0x0A]) (Schema_fields S))"

text \<open>The registry after registering field proxies for the given names, in order,
  starting from the empty registry: the identifiers are 0, 1, 2, \<dots>\<close>

definition registry_of_names :: "string list \<Rightarrow> ProxyManager" where
  "registry_of_names nms =
     foldl (\<lambda>pm nm. snd (manageProxy pm (FieldProxy (ptr (example_field nm)))))
       empty_registry nms"

subsection \<open>The outcome of a method call\<close>

text \<open>A call that starts from the context \<open>c\<close> and returns with \<open>c'\<close> has either written
  \<open>outputs[0]\<close> and left the error record unset, or set the error record and left
  \<open>outputs[0]\<close> unwritten; nothing else of the context has changed.\<close>

definition output_xor_error :: "'a Context \<Rightarrow> 'a Context \<Rightarrow> bool" where
  "output_xor_error c c' =
     ((\<exists>v. c' = c\<lparr>outputs := (outputs c)(0 \<mapsto> v)\<rparr> \<and> error c' = None)
      \<or> (\<exists>e. c' = c\<lparr>error := Some e\<rparr> \<and> outputs c' 0 = None))"

section \<open>Properties\<close>

subsection \<open>The field count as a 32-bit integer\<close>

lemma sint_pred: "1 \<le> sint (i :: 32 word) \<Longrightarrow> sint (i - 1) = sint i - 1"
proof -
  assume h: "1 \<le> sint i"
  have "sint i < 2 ^ 31" using sint_lt [of i] by simp
  with h have "signed_take_bit 31 (sint i - 1) = sint i - 1"
    by (intro signed_take_bit_int_eq_self) auto
  then show ?thesis by (simp add: sint_word_ariths)
qed

lemma sint_num_fields_le: "sint (num_fields S) \<le> int (length (Schema_fields S))"
  unfolding num_fields_def
  by (simp add: signed_of_nat signed_take_bit_int_less_eq_self_iff)

lemma num_fields_fits:
  "Schema_fits S \<Longrightarrow> sint (num_fields S) = int (length (Schema_fields S))"
  unfolding num_fields_def Schema_fits_def
  by (simp add: signed_of_nat signed_take_bit_int_eq_self)

lemma num_fields_zero_fits:
  "Schema_fits S \<Longrightarrow> num_fields S = 0 \<longleftrightarrow> Schema_fields S = []"
  unfolding num_fields_def Schema_fits_def
  by (auto simp add: word_of_nat_eq_0_iff dest: dvd_imp_le)

lemma scast_num_fields_fits:
  assumes "Schema_fits S"
  shows "unat (scast (num_fields S) :: size_t) = length (Schema_fields S)"
proof -
  have len: "length (Schema_fields S) < 2 ^ 31"
    using assms by (simp add: Schema_fits_def)
  have "(scast (num_fields S) :: size_t) = word_of_int (int (length (Schema_fields S)))"
    using num_fields_fits [OF assms] by (metis of_int_sint)
  then have "(scast (num_fields S) :: size_t) = word_of_nat (length (Schema_fields S))"
    by simp
  then have "unat (scast (num_fields S) :: size_t) = length (Schema_fields S) mod 2 ^ 64"
    by (simp add: unat_of_nat)
  with len show ?thesis by simp
qed

subsection \<open>The three branches of \<open>getFieldByIndex\<close>\<close>

lemma getFieldByIndex_empty:
  "num_fields (schema self) = 0 \<Longrightarrow>
     getFieldByIndex self pm c = Some (pm, c\<lparr>error := Some makeEmptySchemaError\<rparr>)"
  by (simp add: getFieldByIndex_def)

lemma getFieldByIndex_invalid:
  "num_fields (schema self) \<noteq> 0 \<Longrightarrow>
   sint (Index (inputs c)) < 1 \<or> sint (Index (inputs c)) > sint (num_fields (schema self)) \<Longrightarrow>
     getFieldByIndex self pm c =
       Some (pm, c\<lparr>error := Some
         \<lparr>error_id = ARROW_TABULAR_SCHEMA_INVALID_NUMERIC_FIELD_INDEX,
          message = ''Invalid field index: '' @ string_of_int (sint (Index (inputs c)))
            @ ''. Field index must be between 1 and the number of fields (''
            @ string_of_int (sint (num_fields (schema self))) @ '').''\<rparr>\<rparr>)"
  by (simp add: getFieldByIndex_def Let_def)

lemma Schema_field_in_range:
  assumes "1 \<le> sint i" "sint i \<le> sint (num_fields S)"
  shows "nat (sint i - 1) < length (Schema_fields S)"
    and "Schema_field S (i - 1) = Some (ptr (Schema_fields S ! nat (sint i - 1)))"
proof -
  show *: "nat (sint i - 1) < length (Schema_fields S)"
    using assms sint_num_fields_le [of S] by linarith
  show "Schema_field S (i - 1) = Some (ptr (Schema_fields S ! nat (sint i - 1)))"
    using assms(1) * by (simp add: Schema_field_def sint_pred)
qed

lemma getFieldByIndex_valid:
  assumes "1 \<le> sint (Index (inputs c))"
    and "sint (Index (inputs c)) \<le> sint (num_fields (schema self))"
  shows "getFieldByIndex self pm c =
     Some (snd (manageProxy pm (FieldProxy (ptr (Schema_fields (schema self) ! nat (sint (Index (inputs c)) - 1))))),
           c\<lparr>outputs := (outputs c)(0 \<mapsto> UInt64Scalar (current_proxy_id pm))\<rparr>)"
proof -
  have nz: "num_fields (schema self) \<noteq> 0" using assms by auto
  show ?thesis
    using assms nz Schema_field_in_range(2) [OF assms]
    by (simp add: getFieldByIndex_def Let_def manageProxy_def)
qed

subsection \<open>The conversion loop of \<open>getFieldNames\<close>\<close>

lemma convert_names_acc:
  "convert_names ns acc =
     (case convert_names ns [] of Inl st \<Rightarrow> Inl st | Inr us \<Rightarrow> Inr (acc @ us))"
proof (induction ns arbitrary: acc)
  case Nil
  then show ?case by simp
next
  case (Cons n ns)
  show ?case
  proof (cases "UTF8StringToUTF16 n")
    case (Inl st)
    then show ?thesis by simp
  next
    case (Inr u)
    then show ?thesis
      using Cons.IH [of "acc @ [u]"] Cons.IH [of "[u]"]
      by (simp split: sum.splits)
  qed
qed

lemma convert_names_single:
  "convert_names ns [u] =
     (case convert_names ns [] of Inl st \<Rightarrow> Inl st | Inr us \<Rightarrow> Inr (u # us))"
  by (subst convert_names_acc) (simp split: sum.splits)

lemma convert_names_Inr:
  "convert_names ns [] = Inr us \<longleftrightarrow> list_all2 (\<lambda>n u. UTF8StringToUTF16 n = Inr u) ns us"
proof (induction ns arbitrary: us)
  case Nil
  then show ?case by auto
next
  case (Cons n ns)
  show ?case
    by (auto simp: convert_names_single list_all2_Cons1 Cons.IH [symmetric] split: sum.splits)
qed

lemma convert_names_Inl:
  "convert_names ns [] = Inl st \<Longrightarrow>
     \<exists>k < length ns. UTF8StringToUTF16 (ns ! k) = Inl st
        \<and> (\<forall>j < k. \<exists>u. UTF8StringToUTF16 (ns ! j) = Inr u)"
proof (induction ns)
  case Nil
  then show ?case by simp
next
  case (Cons n ns)
  show ?case
  proof (cases "UTF8StringToUTF16 n")
    case (Inl st')
    with Cons.prems have "st' = st" by simp
    with Inl show ?thesis by (intro exI [of _ 0]) simp
  next
    case (Inr u)
    with Cons.prems have "convert_names ns [] = Inl st"
      by (simp add: convert_names_single split: sum.splits)
    from Cons.IH [OF this] obtain k where k: "k < length ns"
      "UTF8StringToUTF16 (ns ! k) = Inl st" "\<forall>j < k. \<exists>u. UTF8StringToUTF16 (ns ! j) = Inr u"
      by blast
    show ?thesis
    proof (intro exI [of _ "Suc k"] conjI allI impI)
      fix j assume "j < Suc k"
      then show "\<exists>u. UTF8StringToUTF16 ((n # ns) ! j) = Inr u"
        using k(3) Inr by (cases j) auto
    qed (use k in auto)
  qed
qed

lemma getFieldNames_success:
  "convert_names (field_names (schema self)) [] = Inr us \<Longrightarrow>
     getFieldNames self c =
       c\<lparr>outputs := (outputs c)(0 \<mapsto> StringArray [1, scast (num_fields (schema self))] us)\<rparr>"
  by (simp add: getFieldNames_def)

lemma getFieldNames_failure:
  "convert_names (field_names (schema self)) [] = Inl st \<Longrightarrow>
     getFieldNames self c = c\<lparr>error := Some (status_error UNICODE_CONVERSION_ERROR_ID st)\<rparr>"
  by (simp add: getFieldNames_def)

lemma getFieldNames_emitted:
  assumes "outputs c 0 = None"
    and "outputs (getFieldNames self c) 0 = Some (StringArray dims ns)"
  shows "list_all2 (\<lambda>n u. UTF8StringToUTF16 n = Inr u) (field_names (schema self)) ns"
    and "dims = [1, scast (num_fields (schema self))]"
proof -
  have "convert_names (field_names (schema self)) [] = Inr ns
      \<and> dims = [1, scast (num_fields (schema self))]"
  proof (cases "convert_names (field_names (schema self)) []")
    case (Inl st)
    with assms show ?thesis by (simp add: getFieldNames_failure)
  next
    case (Inr us)
    with assms show ?thesis by (simp add: getFieldNames_success)
  qed
  then show "list_all2 (\<lambda>n u. UTF8StringToUTF16 n = Inr u) (field_names (schema self)) ns"
    and "dims = [1, scast (num_fields (schema self))]"
    by (simp_all add: convert_names_Inr)
qed

subsection \<open>Evaluating the decimal rendering\<close>

lemma string_of_nat_digit: "n < 10 \<Longrightarrow> string_of_nat n = [digit_char n]"
  by (simp add: string_of_nat.simps)

lemma string_of_nat_step:
  "10 \<le> n \<Longrightarrow> string_of_nat n = string_of_nat (n div 10) @ [digit_char (n mod 10)]"
  by (subst string_of_nat.simps) simp

lemma digit_value_digit_char: "d < 10 \<Longrightarrow> digit_value (digit_char d) = d"
  by (simp add: digit_value_def digit_char_def)

lemma nat_of_decimal_string_of_nat: "nat_of_decimal (string_of_nat n) = n"
proof (induction n rule: string_of_nat.induct)
  case (1 n)
  show ?case
  proof (cases "n < 10")
    case True
    then show ?thesis
      by (simp add: string_of_nat_digit nat_of_decimal_def digit_value_digit_char)
  next
    case False
    then have "nat_of_decimal (string_of_nat (n div 10)) = n div 10"
      using "1.IH" by simp
    with False show ?thesis
      by (simp add: string_of_nat_step nat_of_decimal_def digit_value_digit_char)
  qed
qed

lemma string_of_nat_head: "string_of_nat n \<noteq> [] \<and> hd (string_of_nat n) \<noteq> CHR ''-''"
proof (induction n rule: string_of_nat.induct)
  case (1 n)
  show ?case
  proof (cases "n < 10")
    case True
    then have "digit_char n \<noteq> CHR ''-''"
      by (auto simp add: digit_char_def char_of_eq_iff take_bit_eq_mod)
    with True show ?thesis by (simp add: string_of_nat_digit)
  next
    case False
    with "1.IH" show ?thesis by (simp add: string_of_nat_step)
  qed
qed

lemma int_of_decimal_string_of_int: "int_of_decimal (string_of_int i) = i"
proof (cases "i < 0")
  case True
  then show ?thesis
    by (simp add: int_of_decimal_def string_of_int_def nat_of_decimal_string_of_nat)
next
  case False
  obtain c r where s: "string_of_nat (nat i) = c # r" "c \<noteq> CHR ''-''"
    using string_of_nat_head [of "nat i"] by (cases "string_of_nat (nat i)") auto
  have "nat_of_decimal (c # r) = nat i"
    using nat_of_decimal_string_of_nat [of "nat i"] by (simp add: s(1))
  with False s show ?thesis
    by (simp add: int_of_decimal_def string_of_int_def)
qed

subsection \<open>Registration in the proxy registry\<close>

lemma manageProxy_changes: "snd (manageProxy pm p) \<noteq> pm"
proof
  assume "snd (manageProxy pm p) = pm"
  then have "current_proxy_id (snd (manageProxy pm p)) = current_proxy_id pm" by simp
  then show False by (simp add: manageProxy_def)
qed

lemma word_less_succ: "c \<noteq> - 1 \<Longrightarrow> c < c + (1 :: 'a :: len word)"
proof -
  assume "c \<noteq> - 1"
  then have "1 + c \<noteq> 0" using max_word_wrap [of c] by (auto simp add: add.commute)
  then have "unat (1 + c) = Suc (unat c)" by (rule unatSuc)
  then show ?thesis by (simp add: word_less_nat_alt add.commute)
qed

lemma manageProxy_fst: "fst (manageProxy pm p) = current_proxy_id pm"
  by (simp add: manageProxy_def)

lemma manageProxy_fresh:
  "ProxyManager_ok pm \<Longrightarrow> getProxy pm (fst (manageProxy pm p)) = None"
  by (auto simp add: ProxyManager_ok_def manageProxy_def getProxy_def dom_def)

lemma manageProxy_lookup:
  "getProxy (snd (manageProxy pm p)) k =
     (if k = current_proxy_id pm then Some p else getProxy pm k)"
  by (simp add: manageProxy_def getProxy_def)

lemma manageProxy_bound:
  assumes "ProxyManager_ok pm"
  shows "getProxy (snd (manageProxy pm p)) k \<noteq> None \<longrightarrow> k < current_proxy_id pm + 1"
proof
  assume k: "getProxy (snd (manageProxy pm p)) k \<noteq> None"
  have lt: "current_proxy_id pm < current_proxy_id pm + 1"
    using assms by (simp add: ProxyManager_ok_def word_less_succ)
  show "k < current_proxy_id pm + 1"
  proof (cases "k = current_proxy_id pm")
    case True
    with lt show ?thesis by simp
  next
    case False
    with k have "getProxy pm k \<noteq> None"
      by (simp add: manageProxy_lookup)
    then have "k \<in> dom (proxy_map pm)"
      by (auto simp add: getProxy_def)
    with assms have "k < current_proxy_id pm" by (simp add: ProxyManager_ok_def)
    with lt show ?thesis by simp
  qed
qed

lemma manageProxy_twice:
  assumes "ProxyManager_ok pm" and "pm1 = snd (manageProxy pm p)"
  shows "getProxy pm (current_proxy_id pm) = None"
    and "getProxy pm1 (current_proxy_id pm) = Some p"
    and "getProxy pm1 (current_proxy_id pm1) = None"
    and "getProxy (snd (manageProxy pm1 p)) (current_proxy_id pm1) = Some p"
    and "getProxy (snd (manageProxy pm1 p)) (current_proxy_id pm) = Some p"
    and "current_proxy_id pm \<noteq> current_proxy_id pm1"
proof -
  have id2: "current_proxy_id pm1 = current_proxy_id pm + 1"
    by (simp add: assms(2) manageProxy_def)
  show ne: "current_proxy_id pm \<noteq> current_proxy_id pm1" by (simp add: id2)
  show "getProxy pm (current_proxy_id pm) = None"
    using manageProxy_fresh [OF assms(1), of p] by (simp add: manageProxy_fst)
  show "getProxy pm1 (current_proxy_id pm) = Some p"
    by (simp add: assms(2) manageProxy_lookup)
  show "getProxy pm1 (current_proxy_id pm1) = None"
    using manageProxy_bound [OF assms(1), of p "current_proxy_id pm1"]
    by (simp add: assms(2) [symmetric] id2)
  show "getProxy (snd (manageProxy pm1 p)) (current_proxy_id pm1) = Some p"
    by (simp add: manageProxy_lookup)
  show "getProxy (snd (manageProxy pm1 p)) (current_proxy_id pm) = Some p"
    using ne \<open>getProxy pm1 (current_proxy_id pm) = Some p\<close>
    by (simp add: manageProxy_lookup)
qed

subsection \<open>The branches of \<open>getFieldByName\<close>\<close>

lemma count_list_field_names:
  "count_list (field_names S) nm = length (GetAllFieldsByName S nm)"
proof -
  have "count_list (map name fs) nm = length (filter (\<lambda>f. name f = nm) fs)" for fs
    by (induction fs) auto
  then show ?thesis by (simp add: field_names_def GetAllFieldsByName_def)
qed

lemma CanReferenceFieldsByNames_single:
  "ok (CanReferenceFieldsByNames S [nm]) \<longleftrightarrow> count_list (field_names S) nm = 1"
  by (simp add: CanReferenceFieldsByNames_def count_list_field_names)

lemma getFieldByName_conversion_failure:
  "UTF16StringToUTF8 (Name (inputs ctx)) = Inl st \<Longrightarrow>
     getFieldByName self pm ctx =
       (pm, ctx\<lparr>error := Some (status_error UNICODE_CONVERSION_ERROR_ID st)\<rparr>)"
  by (simp add: getFieldByName_def)

lemma getFieldByName_ambiguous:
  "UTF16StringToUTF8 (Name (inputs ctx)) = Inr nm \<Longrightarrow>
   count_list (field_names (schema self)) nm \<noteq> 1 \<Longrightarrow>
     getFieldByName self pm ctx =
       (pm, ctx\<lparr>error := Some (status_error ARROW_TABULAR_SCHEMA_AMBIGUOUS_FIELD_NAME
                                  (CanReferenceFieldsByNames (schema self) [nm]))\<rparr>)"
  by (simp add: getFieldByName_def Let_def CanReferenceFieldsByNames_single)

lemma unique_field:
  assumes "count_list (field_names S) nm = 1"
  shows "\<exists>f. GetAllFieldsByName S nm = [f] \<and> GetFieldByName S nm = ptr f
    \<and> f \<in> set (Schema_fields S) \<and> name f = nm"
proof -
  from assms have "length (GetAllFieldsByName S nm) = 1"
    by (simp add: count_list_field_names)
  then obtain f where f: "GetAllFieldsByName S nm = [f]"
    by (cases "GetAllFieldsByName S nm") auto
  then have "f \<in> set (filter (\<lambda>f. name f = nm) (Schema_fields S))"
    by (simp add: GetAllFieldsByName_def)
  with f show ?thesis by (auto simp add: GetFieldByName_def)
qed

lemma getFieldByName_unique:
  assumes "UTF16StringToUTF8 (Name (inputs ctx)) = Inr nm"
    and "count_list (field_names (schema self)) nm = 1"
  shows "getFieldByName self pm ctx =
       (snd (manageProxy pm (FieldProxy (GetFieldByName (schema self) nm))),
        ctx\<lparr>outputs := (outputs ctx)(0 \<mapsto> UInt64Scalar (current_proxy_id pm))\<rparr>)"
  using assms
  by (simp add: getFieldByName_def Let_def CanReferenceFieldsByNames_single manageProxy_def)

subsection \<open>The outcomes of the two lookups\<close>

lemma getFieldByIndex_cases:
  obtains (failed) e where
      "getFieldByIndex self pm ctx = Some (pm, ctx\<lparr>error := Some e\<rparr>)"
      "num_fields (schema self) = 0 \<or> sint (Index (inputs ctx)) < 1
         \<or> sint (num_fields (schema self)) < sint (Index (inputs ctx))"
  | (succeeded) f where
      "getFieldByIndex self pm ctx =
         Some (snd (manageProxy pm (FieldProxy (ptr f))),
               ctx\<lparr>outputs := (outputs ctx)(0 \<mapsto> UInt64Scalar (current_proxy_id pm))\<rparr>)"
      "1 \<le> sint (Index (inputs ctx))"
      "sint (Index (inputs ctx)) \<le> sint (num_fields (schema self))"
      "f = Schema_fields (schema self) ! nat (sint (Index (inputs ctx)) - 1)"
proof -
  let ?i = "Index (inputs ctx)"
  let ?n = "num_fields (schema self)"
  consider (empty) "?n = 0" | (invalid) "?n \<noteq> 0" "sint ?i < 1 \<or> sint ?n < sint ?i"
    | (valid) "1 \<le> sint ?i" "sint ?i \<le> sint ?n"
    by fastforce
  then show thesis
  proof cases
    case empty
    then show ?thesis
      using getFieldByIndex_empty [OF empty, of pm ctx] failed by blast
  next
    case invalid
    then show ?thesis
      using getFieldByIndex_invalid [OF invalid, of pm] failed by blast
  next
    case valid
    then show ?thesis
      using getFieldByIndex_valid [OF valid, of pm] succeeded by blast
  qed
qed

lemma getFieldByName_cases:
  obtains (unconvertible) st where
      "UTF16StringToUTF8 (Name (inputs ctx)) = Inl st"
      "getFieldByName self pm ctx =
         (pm, ctx\<lparr>error := Some (status_error UNICODE_CONVERSION_ERROR_ID st)\<rparr>)"
  | (ambiguous) nm where
      "UTF16StringToUTF8 (Name (inputs ctx)) = Inr nm"
      "count_list (field_names (schema self)) nm \<noteq> 1"
      "getFieldByName self pm ctx =
         (pm, ctx\<lparr>error := Some (status_error ARROW_TABULAR_SCHEMA_AMBIGUOUS_FIELD_NAME
                                    (CanReferenceFieldsByNames (schema self) [nm]))\<rparr>)"
  | (succeeded) nm f where
      "UTF16StringToUTF8 (Name (inputs ctx)) = Inr nm"
      "count_list (field_names (schema self)) nm = 1"
      "f \<in> set (Schema_fields (schema self))" "name f = nm"
      "GetFieldByName (schema self) nm = ptr f"
      "getFieldByName self pm ctx =
         (snd (manageProxy pm (FieldProxy (ptr f))),
          ctx\<lparr>outputs := (outputs ctx)(0 \<mapsto> UInt64Scalar (current_proxy_id pm))\<rparr>)"
proof (cases "UTF16StringToUTF8 (Name (inputs ctx))")
  case (Inl st)
  then show ?thesis
    using getFieldByName_conversion_failure [OF Inl, of self pm] unconvertible by blast
next
  case (Inr nm)
  show ?thesis
  proof (cases "count_list (field_names (schema self)) nm = 1")
    case True
    from unique_field [OF True] obtain f where
      f: "GetFieldByName (schema self) nm = ptr f" "f \<in> set (Schema_fields (schema self))"
         "name f = nm"
      by blast
    show ?thesis
      using getFieldByName_unique [OF Inr True, of pm] f succeeded [OF Inr True f(2,3,1)]
      by simp
  next
    case False
    then show ?thesis
      using getFieldByName_ambiguous [OF Inr False, of pm] ambiguous [OF Inr False] by blast
  qed
qed

subsection \<open>Outcomes of the remaining methods\<close>

lemma output_xor_error_exclusive:
  "output_xor_error c c' \<Longrightarrow> (outputs c' 0 \<noteq> None) \<noteq> (error c' \<noteq> None)"
  by (auto simp add: output_xor_error_def)

lemma output_xor_error_output:
  "outputs c 0 = None \<Longrightarrow> error c = None \<Longrightarrow>
     output_xor_error c (c\<lparr>outputs := (outputs c)(0 \<mapsto> v)\<rparr>)"
  unfolding output_xor_error_def by (intro disjI1 exI [of _ v]) simp

lemma output_xor_error_error:
  "outputs c 0 = None \<Longrightarrow> error c = None \<Longrightarrow>
     output_xor_error c (c\<lparr>error := Some e\<rparr>)"
  unfolding output_xor_error_def by (intro disjI2 exI [of _ e]) simp

lemma getNumFields_output:
  "getNumFields self c = c\<lparr>outputs := (outputs c)(0 \<mapsto> Int32Scalar (num_fields (schema self)))\<rparr>"
  by (simp add: getNumFields_def)

lemma toString_cases:
  obtains (failed) st where "UTF8StringToUTF16 (ToString (schema self)) = Inl st"
      "toString ToString self c = c\<lparr>error := Some (status_error UNICODE_CONVERSION_ERROR_ID st)\<rparr>"
  | (succeeded) u where "UTF8StringToUTF16 (ToString (schema self)) = Inr u"
      "toString ToString self c = c\<lparr>outputs := (outputs c)(0 \<mapsto> StringScalar u)\<rparr>"
  by (cases "UTF8StringToUTF16 (ToString (schema self))") (simp_all add: toString_def)

lemma getFieldNames_cases:
  obtains (failed) st where "convert_names (field_names (schema self)) [] = Inl st"
      "getFieldNames self c = c\<lparr>error := Some (status_error UNICODE_CONVERSION_ERROR_ID st)\<rparr>"
  | (succeeded) us where "convert_names (field_names (schema self)) [] = Inr us"
      "getFieldNames self c =
         c\<lparr>outputs := (outputs c)(0 \<mapsto> StringArray [1, scast (num_fields (schema self))] us)\<rparr>"
  by (cases "convert_names (field_names (schema self)) []")
     (simp_all add: getFieldNames_success getFieldNames_failure)

subsection \<open>The loop of \<open>make\<close>\<close>

lemma make_fields_acc:
  "make_fields pm ids fs =
     (case make_fields pm ids [] of Inl e \<Rightarrow> Inl e | Inr gs \<Rightarrow> Inr (fs @ gs))"
proof (induction ids arbitrary: fs)
  case Nil
  then show ?case by simp
next
  case (Cons i ids)
  show ?case
  proof (cases "getProxy pm i")
    case None
    then show ?thesis by simp
  next
    case (Some p)
    then show ?thesis
      using Cons.IH [of "fs @ [g]" for g] Cons.IH [of "[g]" for g]
      by (cases p) (simp_all split: sum.splits)
  qed
qed

lemma make_fields_single:
  "make_fields pm ids [g] =
     (case make_fields pm ids [] of Inl e \<Rightarrow> Inl e | Inr gs \<Rightarrow> Inr (g # gs))"
  by (subst make_fields_acc) (simp split: sum.splits)

lemma make_fields_Inr:
  "make_fields pm ids [] = Inr ps
     \<longleftrightarrow> list_all2 (\<lambda>i p. getProxy pm i = Some (FieldProxy p)) ids ps"
proof (induction ids arbitrary: ps)
  case Nil
  then show ?case by auto
next
  case (Cons i ids)
  show ?case
    by (auto simp: make_fields_single list_all2_Cons1 Cons.IH [symmetric]
        split: sum.splits option.splits Proxy.splits)
qed

lemma unwrap_all_Some: "unwrap_all ps = Some xs \<longleftrightarrow> ps = map ptr xs"
proof (induction ps arbitrary: xs)
  case Nil
  then show ?case by auto
next
  case (Cons p ps)
  show ?case
    by (cases p) (auto simp: Cons.IH)
qed

lemma Schema_make_Inr:
  "Schema_make pm ids = Inr self
     \<longleftrightarrow> list_all2 (\<lambda>i f. getProxy pm i = Some (FieldProxy (ptr f))) ids
           (Schema_fields (schema self))"
proof -
  obtain fs where self: "self = Schema (arrow_Schema fs)"
    by (metis Schema.exhaust arrow_Schema.exhaust)
  have "Schema_make pm ids = Inr self
      \<longleftrightarrow> (\<exists>ps. make_fields pm ids [] = Inr ps \<and> unwrap_all ps = Some fs)"
    by (auto simp add: Schema_make_def arrow_schema_def self split: sum.splits option.splits)
  also have "\<dots> \<longleftrightarrow> list_all2 (\<lambda>i p. getProxy pm i = Some (FieldProxy p)) ids (map ptr fs)"
    by (simp add: make_fields_Inr unwrap_all_Some)
  also have "\<dots> \<longleftrightarrow> list_all2 (\<lambda>i f. getProxy pm i = Some (FieldProxy (ptr f))) ids fs"
    by (simp add: list_all2_map2)
  finally show ?thesis by (simp add: self)
qed

lemma list_all2_ex:
  "(\<exists>ys. list_all2 P xs ys) \<longleftrightarrow> (\<forall>x \<in> set xs. \<exists>y. P x y)"
proof (induction xs)
  case Nil
  then show ?case by simp
next
  case (Cons x xs)
  then show ?case by (auto simp add: list_all2_Cons1) 
qed

subsection \<open>UTF-8 and UTF-16 conversions are inverse to each other\<close>

lemma utf8_encode_bytes:
  "is_scalar_value cp \<Longrightarrow> b \<in> set (utf8_encode cp) \<Longrightarrow> b < 256"
  by (auto simp add: utf8_encode_def is_scalar_value_def split: if_splits)

lemma utf16_encode_units:
  "is_scalar_value cp \<Longrightarrow> u \<in> set (utf16_encode cp) \<Longrightarrow> u < 65536"
  by (auto simp add: utf16_encode_def is_scalar_value_def split: if_splits)

lemma utf8_encode_nonempty: "utf8_encode cp \<noteq> []"
  by (simp add: utf8_encode_def)

lemma utf16_encode_nonempty: "utf16_encode cp \<noteq> []"
  by (simp add: utf16_encode_def)

lemma utf16_next_encode:
  "is_scalar_value cp \<Longrightarrow> utf16_next (utf16_encode cp @ rest) = Some (cp, rest)"
  by (auto simp add: utf16_encode_def is_scalar_value_def is_surrogate_def)

lemma pair_div_mod:
  fixes q r m :: nat
  assumes "r < m"
  shows "(q * m + r) div m = q" and "(q * m + r) mod m = r"
  using assms by simp_all

lemma utf16_pair:
  assumes "0xD800 \<le> u" "u < 0xDC00" "0xDC00 \<le> l" "l < 0xE000"
  defines "cp \<equiv> 0x10000 + (u - 0xD800) * 1024 + (l - 0xDC00)"
  shows "utf16_encode cp = [u, l]" and "is_scalar_value cp"
proof -
  define hi where "hi = u - 0xD800"
  define lo where "lo = l - 0xDC00"
  have hi: "hi < 1024" "u = 0xD800 + hi" and lo: "lo < 1024" "l = 0xDC00 + lo"
    using assms(1-4) by (simp_all add: hi_def lo_def)
  have cp: "cp = 0x10000 + (hi * 1024 + lo)"
    by (simp add: cp_def hi_def lo_def)
  have "hi * 1024 \<le> 1023 * 1024" using hi(1) by simp
  then have bound: "hi * 1024 + lo < 0x100000" using lo(1) by simp
  show "is_scalar_value cp"
    using bound by (simp add: cp is_scalar_value_def is_surrogate_def)
  show "utf16_encode cp = [u, l]"
    using pair_div_mod [OF lo(1), of hi] by (simp add: cp utf16_encode_def hi(2) lo(2))
qed

lemma utf16_next_decode:
  assumes "utf16_next us = Some (cp, rest)" and "hd us < 65536"
  shows "us = utf16_encode cp @ rest \<and> is_scalar_value cp"
proof (cases us)
  case Nil
  with assms show ?thesis by simp
next
  case (Cons u us')
  show ?thesis
  proof (cases "is_surrogate u")
    case False
    with assms Cons show ?thesis
      by (auto simp add: utf16_encode_def is_scalar_value_def)
  next
    case True
    with assms Cons obtain l where l: "us' = l # rest" "u < 0xDC00" "0xDC00 \<le> l" "l < 0xE000"
      "cp = 0x10000 + (u - 0xD800) * 1024 + (l - 0xDC00)"
      by (auto split: if_splits list.splits)
    from True have "0xD800 \<le> u" by (simp add: is_surrogate_def)
    from utf16_pair [OF this l(2,3,4)] l(1,5) Cons show ?thesis by simp
  qed
qed

lemma digits3:
  fixes a b c :: nat
  assumes "b < 64" "c < 64"
  shows "(a * 4096 + b * 64 + c) div 4096 = a"
    and "(a * 4096 + b * 64 + c) div 64 mod 64 = b"
    and "(a * 4096 + b * 64 + c) mod 64 = c"
proof -
  let ?n = "a * 4096 + b * 64 + c"
  have e: "?n = (a * 64 + b) * 64 + c" by (simp add: algebra_simps)
  have "?n mod 64 = ((a * 64 + b) * 64 + c) mod 64" by (simp only: e)
  also have "\<dots> = c" by (rule pair_div_mod(2) [OF assms(2)])
  finally show "?n mod 64 = c" .
  have "?n div 64 = ((a * 64 + b) * 64 + c) div 64" by (simp only: e)
  also have "\<dots> = a * 64 + b" by (rule pair_div_mod(1) [OF assms(2)])
  finally have d: "?n div 64 = a * 64 + b" .
  show "?n div 64 mod 64 = b"
    by (simp only: d pair_div_mod(2) [OF assms(1)])
  have "?n div 4096 = ?n div 64 div 64"
    by (simp add: div_mult2_eq)
  also have "\<dots> = a"
    by (simp only: d pair_div_mod(1) [OF assms(1)])
  finally show "?n div 4096 = a" .
qed

lemma digits4:
  fixes a b c d :: nat
  assumes "b < 64" "c < 64" "d < 64"
  shows "(a * 262144 + b * 4096 + c * 64 + d) div 262144 = a"
    and "(a * 262144 + b * 4096 + c * 64 + d) div 4096 mod 64 = b"
    and "(a * 262144 + b * 4096 + c * 64 + d) div 64 mod 64 = c"
    and "(a * 262144 + b * 4096 + c * 64 + d) mod 64 = d"
proof -
  let ?n = "a * 262144 + b * 4096 + c * 64 + d"
  let ?m = "a * 4096 + b * 64 + c"
  have e: "?n = ?m * 64 + d" by (simp add: algebra_simps)
  have "?n mod 64 = (?m * 64 + d) mod 64" by (simp only: e)
  also have "\<dots> = d" by (rule pair_div_mod(2) [OF assms(3)])
  finally show "?n mod 64 = d" .
  have "?n div 64 = (?m * 64 + d) div 64" by (simp only: e)
  also have "\<dots> = ?m" by (rule pair_div_mod(1) [OF assms(3)])
  finally have d1: "?n div 64 = ?m" .
  show "?n div 64 mod 64 = c"
    by (simp only: d1 digits3(3) [OF assms(1,2)])
  have "?n div 4096 = ?n div 64 div 64"
    by (simp add: div_mult2_eq)
  then have d2: "?n div 4096 = ?m div 64"
    by (simp only: d1)
  show "?n div 4096 mod 64 = b"
    by (simp only: d2 digits3(2) [OF assms(1,2)])
  have "?n div 262144 = ?n div 64 div 4096"
    by (simp add: div_mult2_eq)
  then show "?n div 262144 = a"
    by (simp only: d1 digits3(1) [OF assms(1,2)])
qed

lemma shift2: "((x::nat) * 64 + y) * 64 = x * 4096 + y * 64"
  by (simp add: algebra_simps)

lemma shift3: "((x::nat) * 4096 + y * 64 + z) * 64 = x * 262144 + y * 4096 + z * 64"
  by (simp add: algebra_simps)

lemma recompose3: "(n::nat) div 4096 * 4096 + n div 64 mod 64 * 64 + n mod 64 = n"
proof -
  define m where "m = n div 64"
  have a: "n div 4096 = m div 64" by (simp add: div_mult2_eq m_def)
  have n: "n = m * 64 + n mod 64" by (simp add: m_def)
  have "m = m div 64 * 64 + m mod 64" by simp
  then have "m * 64 = (m div 64 * 64 + m mod 64) * 64" by (rule arg_cong)
  also have "\<dots> = m div 64 * 4096 + m mod 64 * 64" by (rule shift2)
  finally have m: "m * 64 = m div 64 * 4096 + m mod 64 * 64" .
  have "n div 4096 * 4096 + n div 64 mod 64 * 64 + n mod 64
      = m div 64 * 4096 + m mod 64 * 64 + n mod 64"
    by (simp only: a m_def)
  with n m show ?thesis by linarith
qed

lemma recompose4:
  "(n::nat) div 262144 * 262144 + n div 4096 mod 64 * 4096 + n div 64 mod 64 * 64 + n mod 64 = n"
proof -
  define m where "m = n div 64"
  have a: "n div 262144 = m div 4096" by (simp add: div_mult2_eq m_def)
  have b: "n div 4096 = m div 64" by (simp add: div_mult2_eq m_def)
  have n: "n = m * 64 + n mod 64" by (simp add: m_def)
  have "m = m div 4096 * 4096 + m div 64 mod 64 * 64 + m mod 64"
    by (simp only: recompose3)
  then have "m * 64 = (m div 4096 * 4096 + m div 64 mod 64 * 64 + m mod 64) * 64"
    by (rule arg_cong)
  also have "\<dots> = m div 4096 * 262144 + m div 64 mod 64 * 4096 + m mod 64 * 64"
    by (rule shift3)
  finally have m: "m * 64 = m div 4096 * 262144 + m div 64 mod 64 * 4096 + m mod 64 * 64" .
  have "n div 262144 * 262144 + n div 4096 mod 64 * 4096 + n div 64 mod 64 * 64 + n mod 64
      = m div 4096 * 262144 + m div 64 mod 64 * 4096 + m mod 64 * 64 + n mod 64"
    by (simp only: a b m_def)
  with n m show ?thesis by linarith
qed

lemma utf8_next_encode:
  assumes "is_scalar_value cp"
  shows "utf8_next (utf8_encode cp @ rest) = Some (cp, rest)"
proof -
  consider (one) "cp < 0x80" | (two) "0x80 \<le> cp" "cp < 0x800"
    | (three) "0x800 \<le> cp" "cp < 0x10000" | (four) "0x10000 \<le> cp" "cp < 0x110000"
    using assms by (fastforce simp add: is_scalar_value_def)
  then show ?thesis
  proof cases
    case one
    then show ?thesis by (simp add: utf8_encode_def)
  next
    case two
    define a where "a = cp div 64"
    define b where "b = cp mod 64"
    have a: "a < 32" using two(2) by (simp add: a_def less_mult_imp_div_less)
    have b: "b < 64" by (simp add: b_def)
    have cp: "a * 64 + b = cp" by (simp add: a_def b_def)
    have enc: "utf8_encode cp = [0xC0 + a, 0x80 + b]"
      using two by (simp add: utf8_encode_def a_def b_def)
    show ?thesis
      using a b two(1) by (simp add: enc is_continuation_def cp)
  next
    case three
    define a where "a = cp div 4096"
    define b where "b = cp div 64 mod 64"
    define c where "c = cp mod 64"
    have a: "a < 16" using three(2) by (simp add: a_def less_mult_imp_div_less)
    have b: "b < 64" and c: "c < 64" by (simp_all add: b_def c_def)
    have cp: "a * 4096 + b * 64 + c = cp"
      unfolding a_def b_def c_def by (rule recompose3)
    have enc: "utf8_encode cp = [0xE0 + a, 0x80 + b, 0x80 + c]"
      using three by (simp add: utf8_encode_def a_def b_def c_def)
    have ns: "\<not> is_surrogate cp" using assms by (simp add: is_scalar_value_def)
    show ?thesis
      using a b c three(1) ns by (simp add: enc is_continuation_def cp)
  next
    case four
    define a where "a = cp div 262144"
    define b where "b = cp div 4096 mod 64"
    define c where "c = cp div 64 mod 64"
    define d where "d = cp mod 64"
    have a: "a < 5" using four(2) by (simp add: a_def less_mult_imp_div_less)
    have b: "b < 64" and c: "c < 64" and d: "d < 64" by (simp_all add: b_def c_def d_def)
    have cp: "a * 262144 + b * 4096 + c * 64 + d = cp"
      unfolding a_def b_def c_def d_def by (rule recompose4)
    have enc: "utf8_encode cp = [0xF0 + a, 0x80 + b, 0x80 + c, 0x80 + d]"
      using four by (simp add: utf8_encode_def a_def b_def c_def d_def)
    show ?thesis
      using a b c d four by (simp add: enc is_continuation_def cp)
  qed
qed

lemma utf8_two:
  assumes "0xC0 \<le> b0" "b0 < 0xE0" "is_continuation b1"
    and "0x80 \<le> (b0 - 0xC0) * 64 + (b1 - 0x80)"
  defines "cp \<equiv> (b0 - 0xC0) * 64 + (b1 - 0x80)"
  shows "utf8_encode cp = [b0, b1]" and "is_scalar_value cp"
proof -
  define a where "a = b0 - 0xC0"
  define b where "b = b1 - 0x80"
  have a: "a < 32" "b0 = 0xC0 + a" and b: "b < 64" "b1 = 0x80 + b"
    using assms(1-3) by (auto simp add: a_def b_def is_continuation_def)
  have cp: "cp = a * 64 + b" by (simp add: cp_def a_def b_def)
  have "a * 64 \<le> 31 * 64" using a(1) by simp
  then have hi: "cp < 0x800" using b(1) by (simp add: cp)
  have lo: "0x80 \<le> cp" using assms(4) by (simp add: cp_def)
  show "is_scalar_value cp"
    using hi by (simp add: is_scalar_value_def is_surrogate_def)
  have "cp div 64 = a" "cp mod 64 = b"
    using b(1) by (simp_all add: cp)
  then show "utf8_encode cp = [b0, b1]"
    using lo hi by (simp add: utf8_encode_def a(2) b(2))
qed

lemma utf8_three:
  assumes "0xE0 \<le> b0" "b0 < 0xF0" "is_continuation b1" "is_continuation b2"
    and "0x800 \<le> (b0 - 0xE0) * 4096 + (b1 - 0x80) * 64 + (b2 - 0x80)"
    and "\<not> is_surrogate ((b0 - 0xE0) * 4096 + (b1 - 0x80) * 64 + (b2 - 0x80))"
  defines "cp \<equiv> (b0 - 0xE0) * 4096 + (b1 - 0x80) * 64 + (b2 - 0x80)"
  shows "utf8_encode cp = [b0, b1, b2]" and "is_scalar_value cp"
proof -
  define a where "a = b0 - 0xE0"
  define b where "b = b1 - 0x80"
  define c where "c = b2 - 0x80"
  have a: "a < 16" "b0 = 0xE0 + a" and b: "b < 64" "b1 = 0x80 + b"
    and c: "c < 64" "b2 = 0x80 + c"
    using assms(1-4) by (auto simp add: a_def b_def c_def is_continuation_def)
  have cp: "cp = a * 4096 + b * 64 + c" by (simp add: cp_def a_def b_def c_def)
  have "a * 4096 \<le> 15 * 4096" "b * 64 \<le> 63 * 64" using a(1) b(1) by simp_all
  then have hi: "cp < 0x10000" using c(1) by (simp add: cp)
  have lo: "0x800 \<le> cp" using assms(5) by (simp add: cp_def)
  show "is_scalar_value cp"
    using hi assms(6) by (simp add: is_scalar_value_def cp_def)
  have "cp div 4096 = a" "cp div 64 mod 64 = b" "cp mod 64 = c"
    unfolding cp by (rule digits3 [OF b(1) c(1)])+
  then show "utf8_encode cp = [b0, b1, b2]"
    using lo hi by (simp add: utf8_encode_def a(2) b(2) c(2))
qed

lemma utf8_four:
  assumes "0xF0 \<le> b0" "b0 < 0xF8" "is_continuation b1" "is_continuation b2"
    "is_continuation b3"
    and "0x10000 \<le> (b0 - 0xF0) * 262144 + (b1 - 0x80) * 4096 + (b2 - 0x80) * 64 + (b3 - 0x80)"
    and "(b0 - 0xF0) * 262144 + (b1 - 0x80) * 4096 + (b2 - 0x80) * 64 + (b3 - 0x80) < 0x110000"
  defines "cp \<equiv> (b0 - 0xF0) * 262144 + (b1 - 0x80) * 4096 + (b2 - 0x80) * 64 + (b3 - 0x80)"
  shows "utf8_encode cp = [b0, b1, b2, b3]" and "is_scalar_value cp"
proof -
  define a where "a = b0 - 0xF0"
  define b where "b = b1 - 0x80"
  define c where "c = b2 - 0x80"
  define d where "d = b3 - 0x80"
  have a: "b0 = 0xF0 + a" and b: "b < 64" "b1 = 0x80 + b"
    and c: "c < 64" "b2 = 0x80 + c" and d: "d < 64" "b3 = 0x80 + d"
    using assms(1-5) by (auto simp add: a_def b_def c_def d_def is_continuation_def)
  have cp: "cp = a * 262144 + b * 4096 + c * 64 + d"
    by (simp add: cp_def a_def b_def c_def d_def)
  have lo: "0x10000 \<le> cp" and hi: "cp < 0x110000"
    using assms(6,7) by (simp_all add: cp_def)
  show "is_scalar_value cp"
    using lo hi by (simp add: is_scalar_value_def is_surrogate_def)
  have "cp div 262144 = a" "cp div 4096 mod 64 = b" "cp div 64 mod 64 = c" "cp mod 64 = d"
    unfolding cp by (rule digits4 [OF b(1) c(1) d(1)])+
  then show "utf8_encode cp = [b0, b1, b2, b3]"
    using lo by (simp add: utf8_encode_def a b(2) c(2) d(2))
qed

lemma utf8_next_decode:
  assumes "utf8_next bs = Some (cp, rest)"
  shows "bs = utf8_encode cp @ rest \<and> is_scalar_value cp"
proof (cases bs)
  case Nil
  with assms show ?thesis by simp
next
  case (Cons b0 bs')
  consider (one) "b0 < 0x80" | (stray) "0x80 \<le> b0" "b0 < 0xC0"
    | (two) "0xC0 \<le> b0" "b0 < 0xE0" | (three) "0xE0 \<le> b0" "b0 < 0xF0"
    | (four) "0xF0 \<le> b0" "b0 < 0xF8" | (beyond) "0xF8 \<le> b0"
    by linarith
  then show ?thesis
  proof cases
    case one
    with assms Cons show ?thesis
      by (auto simp add: utf8_encode_def is_scalar_value_def is_surrogate_def)
  next
    case stray
    with assms Cons show ?thesis by simp
  next
    case two
    with assms Cons obtain b1 where bs': "bs' = b1 # rest" and b1: "is_continuation b1"
      and lo: "0x80 \<le> (b0 - 0xC0) * 64 + (b1 - 0x80)"
      and cp: "cp = (b0 - 0xC0) * 64 + (b1 - 0x80)"
      by (auto simp add: Let_def split: list.splits if_splits)
    from utf8_two [OF two b1 lo] show ?thesis by (simp add: Cons bs' cp)
  next
    case three
    with assms Cons obtain b1 b2 where bs': "bs' = b1 # b2 # rest"
      and b: "is_continuation b1" "is_continuation b2"
      and lo: "0x800 \<le> (b0 - 0xE0) * 4096 + (b1 - 0x80) * 64 + (b2 - 0x80)"
      and ns: "\<not> is_surrogate ((b0 - 0xE0) * 4096 + (b1 - 0x80) * 64 + (b2 - 0x80))"
      and cp: "cp = (b0 - 0xE0) * 4096 + (b1 - 0x80) * 64 + (b2 - 0x80)"
      by (auto simp add: Let_def split: list.splits if_splits)
    from utf8_three [OF three b lo ns] show ?thesis by (simp add: Cons bs' cp)
  next
    case four
    with assms Cons obtain b1 b2 b3 where bs': "bs' = b1 # b2 # b3 # rest"
      and b: "is_continuation b1" "is_continuation b2" "is_continuation b3"
      and lo: "0x10000 \<le> (b0 - 0xF0) * 262144 + (b1 - 0x80) * 4096 + (b2 - 0x80) * 64
                 + (b3 - 0x80)"
      and hi: "(b0 - 0xF0) * 262144 + (b1 - 0x80) * 4096 + (b2 - 0x80) * 64 + (b3 - 0x80)
                 < 0x110000"
      and cp: "cp = (b0 - 0xF0) * 262144 + (b1 - 0x80) * 4096 + (b2 - 0x80) * 64 + (b3 - 0x80)"
      by (auto simp add: Let_def split: list.splits if_splits)
    from utf8_four [OF four b lo hi] show ?thesis by (simp add: Cons bs' cp)
  next
    case beyond
    with assms Cons show ?thesis by simp
  qed
qed

lemma utf8_decode_nonempty:
  "bs \<noteq> [] \<Longrightarrow>
     utf8_decode bs =
       (case utf8_next bs of
          None \<Rightarrow> None
        | Some (cp, r) \<Rightarrow> map_option ((#) cp) (utf8_decode r))"
  by (cases bs) (simp_all del: utf8_next.simps)

lemma utf16_decode_nonempty:
  "us \<noteq> [] \<Longrightarrow>
     utf16_decode us =
       (case utf16_next us of
          None \<Rightarrow> None
        | Some (cp, r) \<Rightarrow> map_option ((#) cp) (utf16_decode r))"
  by (cases us) (simp_all del: utf16_next.simps)

lemma utf8_decode_encode:
  "\<forall>cp \<in> set cps. is_scalar_value cp \<Longrightarrow>
     utf8_decode (concat (map utf8_encode cps)) = Some cps"
proof (induction cps)
  case Nil
  then show ?case by simp
next
  case (Cons cp cps)
  have "utf8_encode cp @ concat (map utf8_encode cps) \<noteq> []"
    by (simp add: utf8_encode_nonempty)
  then show ?case
    using Cons by (simp add: utf8_decode_nonempty utf8_next_encode)
qed

lemma utf16_decode_encode:
  "\<forall>cp \<in> set cps. is_scalar_value cp \<Longrightarrow>
     utf16_decode (concat (map utf16_encode cps)) = Some cps"
proof (induction cps)
  case Nil
  then show ?case by simp
next
  case (Cons cp cps)
  have "utf16_encode cp @ concat (map utf16_encode cps) \<noteq> []"
    by (simp add: utf16_encode_nonempty)
  then show ?case
    using Cons by (simp add: utf16_decode_nonempty utf16_next_encode)
qed

lemma utf8_encode_decode:
  "utf8_decode bs = Some cps \<Longrightarrow>
     concat (map utf8_encode cps) = bs \<and> (\<forall>cp \<in> set cps. is_scalar_value cp)"
proof (induction bs arbitrary: cps rule: utf8_decode.induct)
  case 1
  then show ?case by simp
next
  case (2 b bs)
  from "2.prems" obtain cp r cps' where step: "utf8_next (b # bs) = Some (cp, r)"
    and rest: "utf8_decode r = Some cps'" and cps: "cps = cp # cps'"
    by (auto simp del: utf8_next.simps split: option.splits)
  from "2.IH" [OF step refl rest] utf8_next_decode [OF step]
  show ?case by (simp add: cps)
qed

lemma utf16_encode_decode:
  "utf16_decode us = Some cps \<Longrightarrow> \<forall>u \<in> set us. u < 65536 \<Longrightarrow>
     concat (map utf16_encode cps) = us \<and> (\<forall>cp \<in> set cps. is_scalar_value cp)"
proof (induction us arbitrary: cps rule: utf16_decode.induct)
  case 1
  then show ?case by simp
next
  case (2 u us)
  from "2.prems"(1) obtain cp r cps' where step: "utf16_next (u # us) = Some (cp, r)"
    and rest: "utf16_decode r = Some cps'" and cps: "cps = cp # cps'"
    by (auto simp del: utf16_next.simps split: option.splits)
  have hd: "hd (u # us) < 65536" using "2.prems"(2) by simp
  note dec = utf16_next_decode [OF step hd]
  then have "set r \<subseteq> set (u # us)" by auto
  with "2.prems"(2) have small: "\<forall>u \<in> set r. u < 65536" by blast
  from "2.IH" [OF step refl rest small] dec
  show ?case by (simp add: cps)
qed

lemma map_of_char_char_of:
  "\<forall>b \<in> set bs. b < 256 \<Longrightarrow> map of_char (map char_of bs) = (bs :: nat list)"
  by (induction bs) simp_all

lemma map_unat_of_nat:
  "\<forall>u \<in> set us. u < 65536 \<Longrightarrow> map unat (map of_nat us :: 16 word list) = us"
  by (induction us) (simp_all add: unat_of_nat)

lemma concat_utf8_bytes:
  "\<forall>cp \<in> set cps. is_scalar_value cp \<Longrightarrow>
     \<forall>b \<in> set (concat (map utf8_encode cps)). b < 256"
  by (auto dest: utf8_encode_bytes)

lemma concat_utf16_units:
  "\<forall>cp \<in> set cps. is_scalar_value cp \<Longrightarrow>
     \<forall>u \<in> set (concat (map utf16_encode cps)). u < 65536"
  by (auto dest: utf16_encode_units)

lemma UTF8_then_UTF16:
  assumes "UTF8StringToUTF16 s = Inr t"
  shows "UTF16StringToUTF8 t = Inr s"
proof -
  from assms obtain cps where dec: "utf8_decode (map of_char s) = Some cps"
    and t: "t = map of_nat (concat (map utf16_encode cps))"
    by (auto simp add: UTF8StringToUTF16_def split: option.splits)
  from utf8_encode_decode [OF dec]
  have bytes: "concat (map utf8_encode cps) = map of_char s"
    and scalar: "\<forall>cp \<in> set cps. is_scalar_value cp"
    by simp_all
  have "map unat t = concat (map utf16_encode cps)"
    unfolding t by (rule map_unat_of_nat [OF concat_utf16_units [OF scalar]])
  then have "utf16_decode (map unat t) = Some cps"
    by (simp add: utf16_decode_encode [OF scalar])
  then show ?thesis
    by (simp add: UTF16StringToUTF8_def bytes)
qed

lemma UTF16_then_UTF8:
  assumes "UTF16StringToUTF8 t = Inr s"
  shows "UTF8StringToUTF16 s = Inr t"
proof -
  from assms obtain cps where dec: "utf16_decode (map unat t) = Some cps"
    and s: "s = map char_of (concat (map utf8_encode cps))"
    by (auto simp add: UTF16StringToUTF8_def split: option.splits)
  have "unat u < 65536" for u :: "16 word"
    using unsigned_less [of u, where ?'a = nat] by simp
  then have small: "\<forall>u \<in> set (map unat t). u < 65536"
    by auto
  from utf16_encode_decode [OF dec small]
  have units: "concat (map utf16_encode cps) = map unat t"
    and scalar: "\<forall>cp \<in> set cps. is_scalar_value cp"
    by simp_all
  have "map of_char s = concat (map utf8_encode cps)"
    unfolding s by (rule map_of_char_char_of [OF concat_utf8_bytes [OF scalar]])
  then have "utf8_decode (map of_char s) = Some cps"
    by (simp add: utf8_decode_encode [OF scalar])
  then show ?thesis
    by (simp add: UTF8StringToUTF16_def units comp_def)
qed

lemma converted_names_count:
  assumes "list_all2 (\<lambda>n u. UTF8StringToUTF16 n = Inr u) names us"
    and "UTF16StringToUTF8 name_utf16 = Inr nm"
  shows "count_list us name_utf16 = count_list names nm"
  using assms(1)
proof (induction rule: list_all2_induct)
  case Nil
  then show ?case by simp
next
  case (Cons n names u us)
  have "u = name_utf16 \<longleftrightarrow> n = nm"
  proof
    assume "u = name_utf16"
    with Cons.hyps(1) have "UTF16StringToUTF8 name_utf16 = Inr n"
      by (simp add: UTF8_then_UTF16)
    with assms(2) show "n = nm" by simp
  next
    assume "n = nm"
    with Cons.hyps(1) UTF16_then_UTF8 [OF assms(2)] show "u = name_utf16" by simp
  qed
  with Cons.IH show ?case by simp
qed

section \<open>Claims\<close>

text \<open>C1.  For a schema with \<open>n \<ge> 1\<close> fields and a 1-based index \<open>i\<close> with
  \<open>1 \<le> i \<le> n\<close>, where \<open>n\<close> is the count \<open>num_fields()\<close> reports, \<open>getFieldByIndex\<close>
  succeeds: the 0-based offset is \<open>i - 1\<close> (the subtraction does not wrap), the field
  at that position is retrieved, a new field proxy wrapping it is registered, and
  the identifier of the new entry is written to \<open>outputs[0]\<close> as a scalar unsigned
  64-bit value.  The name of the retrieved field is the \<open>i\<close>-th name of the
  schema, and whenever \<open>getFieldNames\<close> emits its string array, the \<open>i\<close>-th element
  of that array is the UTF-16 conversion of the retrieved field's name.\<close>

theorem getFieldByIndex_in_range:
  fixes ctx :: "Index_args Context" and c :: "'b Context"
  defines "i \<equiv> Index (inputs ctx)"
  assumes "1 \<le> sint i" and "sint i \<le> sint (num_fields (schema self))"
  shows "\<exists>f pm'.
      sint (i - 1) = sint i - 1
    \<and> nat (sint (i - 1)) < length (Schema_fields (schema self))
    \<and> Schema_field (schema self) (i - 1) = Some (ptr f)
    \<and> f = Schema_fields (schema self) ! nat (sint (i - 1))
    \<and> manageProxy pm (FieldProxy (ptr f)) = (current_proxy_id pm, pm')
    \<and> getProxy pm' (current_proxy_id pm) = Some (FieldProxy (ptr f))
    \<and> getFieldByIndex self pm ctx =
        Some (pm', ctx\<lparr>outputs := (outputs ctx)(0 \<mapsto> UInt64Scalar (current_proxy_id pm))\<rparr>)
    \<and> name f = field_names (schema self) ! nat (sint i - 1)
    \<and> (\<forall>dims ns. outputs c 0 = None
          \<and> outputs (getFieldNames self c) 0 = Some (StringArray dims ns)
          \<longrightarrow> nat (sint i - 1) < length ns
              \<and> UTF8StringToUTF16 (name f) = Inr (ns ! nat (sint i - 1)))"
proof -
  let ?k = "nat (sint i - 1)"
  let ?f = "Schema_fields (schema self) ! ?k"
  have pred: "sint (i - 1) = sint i - 1" using assms(2) by (rule sint_pred)
  have k: "?k < length (Schema_fields (schema self))"
    and fld: "Schema_field (schema self) (i - 1) = Some (ptr ?f)"
    using Schema_field_in_range [OF assms(2,3)] by simp_all
  have run: "getFieldByIndex self pm ctx =
      Some (snd (manageProxy pm (FieldProxy (ptr ?f))),
            ctx\<lparr>outputs := (outputs ctx)(0 \<mapsto> UInt64Scalar (current_proxy_id pm))\<rparr>)"
    using getFieldByIndex_valid [of ctx self pm] assms(2,3) by (simp add: i_def)
  have nm: "name ?f = field_names (schema self) ! ?k"
    using k by (simp add: field_names_def)
  have names: "?k < length ns \<and> UTF8StringToUTF16 (name ?f) = Inr (ns ! ?k)"
    if "outputs c 0 = None" "outputs (getFieldNames self c) 0 = Some (StringArray dims ns)"
    for dims ns
  proof -
    from getFieldNames_emitted(1) [OF that]
    have all: "list_all2 (\<lambda>n u. UTF8StringToUTF16 n = Inr u) (field_names (schema self)) ns" .
    then have len: "length ns = length (field_names (schema self))"
      by (simp add: list_all2_lengthD)
    then have "?k < length ns" using k by (simp add: field_names_def)
    moreover have "UTF8StringToUTF16 (field_names (schema self) ! ?k) = Inr (ns ! ?k)"
      using all k by (simp add: list_all2_conv_all_nth field_names_def)
    ultimately show ?thesis using nm by simp
  qed
  show ?thesis
    apply (rule exI [of _ ?f])
    apply (rule exI [of _ "snd (manageProxy pm (FieldProxy (ptr ?f)))"])
    using pred k fld run nm names
    apply (simp add: manageProxy_def getProxy_def)
    done
qed

theorem getFieldByIndex_in_range_witness:
  "getFieldByIndex (schema_of_names [''a'', ''b'', ''c'']) empty_registry
       (new_Context \<lparr>Index = 2\<rparr>)
     = Some (\<lparr>proxy_map = [0 \<mapsto> FieldProxy (ptr (example_field ''b''))], current_proxy_id = 1\<rparr>,
             \<lparr>inputs = \<lparr>Index = 2\<rparr>, outputs = [0 \<mapsto> UInt64Scalar 0], error = None\<rparr>)
   \<and> name (example_field ''b'') = field_names (schema (schema_of_names [''a'', ''b'', ''c''])) ! 1"
proof -
  let ?S = "schema_of_names [''a'', ''b'', ''c'']"
  let ?c = "new_Context \<lparr>Index = 2\<rparr>"
  have h1: "1 \<le> sint (Index (inputs ?c))"
    by (simp add: new_Context_def)
  have h2: "sint (Index (inputs ?c)) \<le> sint (num_fields (schema ?S))"
    by (simp add: new_Context_def schema_of_names_def num_fields_def)
  from getFieldByIndex_in_range [OF h1 h2, of empty_registry ?c]
  show ?thesis
    by (auto simp add: new_Context_def schema_of_names_def empty_registry_def manageProxy_def)
qed

text \<open>C2.  For an index outside \<open>[1, n]\<close> (zero and negative values included)
  \<open>getFieldByIndex\<close> leaves the registry as it is and sets an error whose identifier
  is \<open>ARROW_TABULAR_SCHEMA_INVALID_NUMERIC_FIELD_INDEX\<close>, unless \<open>n = 0\<close>: then, whatever
  the index, the identifier is
  \<open>ARROW_TABULAR_SCHEMA_NUMERIC_FIELD_INDEX_WITH_EMPTY_SCHEMA\<close>.  The empty-schema test
  comes first, the call sets one error record, and the two identifiers differ.  Here
  \<open>n\<close> is the count \<open>num_fields()\<close> reports, which is the number of fields of every
  schema whose field count fits the library's \<open>int\<close>.\<close>

theorem getFieldByIndex_out_of_range:
  defines "INVALID \<equiv> ARROW_TABULAR_SCHEMA_INVALID_NUMERIC_FIELD_INDEX"
    and "EMPTY \<equiv> ARROW_TABULAR_SCHEMA_NUMERIC_FIELD_INDEX_WITH_EMPTY_SCHEMA"
  assumes "num_fields (schema self) = 0
           \<or> sint (Index (inputs ctx)) < 1
           \<or> sint (num_fields (schema self)) < sint (Index (inputs ctx))"
  shows "\<exists>e. getFieldByIndex self pm ctx = Some (pm, ctx\<lparr>error := Some e\<rparr>)
           \<and> error_id e = (if num_fields (schema self) = 0 then EMPTY else INVALID)
           \<and> EMPTY \<noteq> INVALID
           \<and> (Schema_fits (schema self) \<longrightarrow>
                sint (num_fields (schema self)) = int (length (Schema_fields (schema self))))"
proof -
  have fits: "Schema_fits (schema self) \<longrightarrow>
      sint (num_fields (schema self)) = int (length (Schema_fields (schema self)))"
    by (simp add: num_fields_fits)
  have distinct: "EMPTY \<noteq> INVALID"
    by (simp add: EMPTY_def INVALID_def)
  show ?thesis
  proof (cases "num_fields (schema self) = 0")
    case True
    have "getFieldByIndex self pm ctx = Some (pm, ctx\<lparr>error := Some makeEmptySchemaError\<rparr>)"
      using True by (rule getFieldByIndex_empty)
    moreover have "error_id makeEmptySchemaError = EMPTY"
      by (simp add: makeEmptySchemaError_def EMPTY_def)
    ultimately show ?thesis
      using True fits distinct by (intro exI [of _ makeEmptySchemaError]) simp
  next
    case False
    with assms(3) have "sint (Index (inputs ctx)) < 1
        \<or> sint (num_fields (schema self)) < sint (Index (inputs ctx))"
      by simp
    note run = getFieldByIndex_invalid [OF False this, of pm]
    define e where "e =
      \<lparr>error_id = ARROW_TABULAR_SCHEMA_INVALID_NUMERIC_FIELD_INDEX,
       message = ''Invalid field index: '' @ string_of_int (sint (Index (inputs ctx)))
         @ ''. Field index must be between 1 and the number of fields (''
         @ string_of_int (sint (num_fields (schema self))) @ '').''\<rparr>"
    have "getFieldByIndex self pm ctx = Some (pm, ctx\<lparr>error := Some e\<rparr>)"
      unfolding e_def by (rule run)
    moreover have "error_id e = INVALID"
      by (simp add: e_def INVALID_def)
    ultimately show ?thesis
      using False fits distinct by (intro exI [of _ e]) simp
  qed
qed

theorem getFieldByIndex_out_of_range_witness:
  "(\<exists>e. getFieldByIndex (schema_of_names [''a'', ''b'', ''c'']) empty_registry
            (new_Context \<lparr>Index = 0\<rparr>)
          = Some (empty_registry, (new_Context \<lparr>Index = 0\<rparr>)\<lparr>error := Some e\<rparr>)
        \<and> error_id e = ARROW_TABULAR_SCHEMA_INVALID_NUMERIC_FIELD_INDEX)
   \<and> (\<exists>e. getFieldByIndex (schema_of_names [''a'', ''b'', ''c'']) empty_registry
            (new_Context \<lparr>Index = 4\<rparr>)
          = Some (empty_registry, (new_Context \<lparr>Index = 4\<rparr>)\<lparr>error := Some e\<rparr>)
        \<and> error_id e = ARROW_TABULAR_SCHEMA_INVALID_NUMERIC_FIELD_INDEX)
   \<and> (\<exists>e. getFieldByIndex (schema_of_names []) empty_registry (new_Context \<lparr>Index = 1\<rparr>)
          = Some (empty_registry, (new_Context \<lparr>Index = 1\<rparr>)\<lparr>error := Some e\<rparr>)
        \<and> error_id e = ARROW_TABULAR_SCHEMA_NUMERIC_FIELD_INDEX_WITH_EMPTY_SCHEMA)"
proof -
  let ?S = "schema_of_names [''a'', ''b'', ''c'']"
  have n: "num_fields (schema ?S) = 3" "num_fields (schema (schema_of_names [])) = 0"
    by (simp_all add: schema_of_names_def num_fields_def)
  have h0: "num_fields (schema ?S) = 0
      \<or> sint (Index (inputs (new_Context \<lparr>Index = 0\<rparr>))) < 1
      \<or> sint (num_fields (schema ?S)) < sint (Index (inputs (new_Context \<lparr>Index = 0\<rparr>)))"
    by (simp add: new_Context_def)
  have h4: "num_fields (schema ?S) = 0
      \<or> sint (Index (inputs (new_Context \<lparr>Index = 4\<rparr>))) < 1
      \<or> sint (num_fields (schema ?S)) < sint (Index (inputs (new_Context \<lparr>Index = 4\<rparr>)))"
    by (simp add: new_Context_def n)
  have h1: "num_fields (schema (schema_of_names [])) = 0
      \<or> sint (Index (inputs (new_Context \<lparr>Index = 1\<rparr>))) < 1
      \<or> sint (num_fields (schema (schema_of_names [])))
          < sint (Index (inputs (new_Context \<lparr>Index = 1\<rparr>)))"
    by (simp add: n)
  show ?thesis
    using getFieldByIndex_out_of_range [OF h0, of empty_registry]
      getFieldByIndex_out_of_range [OF h4, of empty_registry]
      getFieldByIndex_out_of_range [OF h1, of empty_registry]
    unfolding n by (elim exE conjE) (simp; blast)
qed

text \<open>C3.  For a schema with \<open>n \<ge> 1\<close> fields and a 1-based index \<open>i\<close> with \<open>i < 1\<close>
  or \<open>i > n\<close>, the message of the error that \<open>getFieldByIndex\<close> sets is the text
  \<open>Invalid field index: <i>. Field index must be between 1 and the number of fields (<n>).\<close>
  where \<open><i>\<close> is the decimal rendering of the index as received (the 1-based value,
  not the offset \<open>i - 1\<close>) and \<open><n>\<close> that of the field count: read back as decimal
  numerals they are \<open>i\<close> and \<open>n\<close>.\<close>

theorem getFieldByIndex_invalid_index_message:
  assumes "1 \<le> sint (num_fields (schema self))"
    and "sint (Index (inputs ctx)) < 1
         \<or> sint (num_fields (schema self)) < sint (Index (inputs ctx))"
  shows "\<exists>e. getFieldByIndex self pm ctx = Some (pm, ctx\<lparr>error := Some e\<rparr>)
           \<and> message e =
               ''Invalid field index: '' @ string_of_int (sint (Index (inputs ctx)))
               @ ''. Field index must be between 1 and the number of fields (''
               @ string_of_int (sint (num_fields (schema self))) @ '').''
           \<and> int_of_decimal (string_of_int (sint (Index (inputs ctx))))
               = sint (Index (inputs ctx))
           \<and> int_of_decimal (string_of_int (sint (num_fields (schema self))))
               = sint (num_fields (schema self))"
proof -
  have nz: "num_fields (schema self) \<noteq> 0" using assms(1) by auto
  define e where "e =
    \<lparr>error_id = ARROW_TABULAR_SCHEMA_INVALID_NUMERIC_FIELD_INDEX,
     message = ''Invalid field index: '' @ string_of_int (sint (Index (inputs ctx)))
       @ ''. Field index must be between 1 and the number of fields (''
       @ string_of_int (sint (num_fields (schema self))) @ '').''\<rparr>"
  have "getFieldByIndex self pm ctx = Some (pm, ctx\<lparr>error := Some e\<rparr>)"
    unfolding e_def by (rule getFieldByIndex_invalid [OF nz assms(2)])
  moreover have "message e =
      ''Invalid field index: '' @ string_of_int (sint (Index (inputs ctx)))
      @ ''. Field index must be between 1 and the number of fields (''
      @ string_of_int (sint (num_fields (schema self))) @ '').''"
    unfolding e_def by (rule Error.select_convs)
  ultimately show ?thesis
    by (intro exI [of _ e] conjI int_of_decimal_string_of_int)
qed

theorem getFieldByIndex_invalid_index_message_witness:
  "(\<exists>e. getFieldByIndex (schema_of_names [''a'', ''b'', ''c'']) empty_registry
            (new_Context \<lparr>Index = 0\<rparr>)
          = Some (empty_registry, (new_Context \<lparr>Index = 0\<rparr>)\<lparr>error := Some e\<rparr>)
        \<and> message e =
            ''Invalid field index: 0. Field index must be between 1 and the number of fields (3).'')
   \<and> (\<exists>e. getFieldByIndex (schema_of_names [''a'', ''b'', ''c'']) empty_registry
            (new_Context \<lparr>Index = - 12\<rparr>)
          = Some (empty_registry, (new_Context \<lparr>Index = - 12\<rparr>)\<lparr>error := Some e\<rparr>)
        \<and> message e =
            ''Invalid field index: -12. Field index must be between 1 and the number of fields (3).'')"
proof -
  let ?S = "schema_of_names [''a'', ''b'', ''c'']"
  have n: "num_fields (schema ?S) = 3"
    by (simp add: schema_of_names_def num_fields_def)
  have hn: "1 \<le> sint (num_fields (schema ?S))"
    by (simp add: n)
  have h0: "sint (Index (inputs (new_Context \<lparr>Index = 0\<rparr>))) < 1
      \<or> sint (num_fields (schema ?S)) < sint (Index (inputs (new_Context \<lparr>Index = 0\<rparr>)))"
    by (simp add: new_Context_def)
  have h12: "sint (Index (inputs (new_Context \<lparr>Index = - 12\<rparr>))) < 1
      \<or> sint (num_fields (schema ?S)) < sint (Index (inputs (new_Context \<lparr>Index = - 12\<rparr>)))"
    by (simp add: new_Context_def)
  have d: "digit_char 0 = CHR ''0''" "digit_char (Suc 0) = CHR ''1''" "digit_char 2 = CHR ''2''"
    "digit_char 3 = CHR ''3''"
    by code_simp+
  have s: "string_of_int 0 = ''0''" "string_of_int 3 = ''3''" "string_of_int (- 12) = ''-12''"
    by (simp_all add: string_of_int_def string_of_nat_digit string_of_nat_step d)
  have i: "sint (Index (inputs (new_Context \<lparr>Index = 0\<rparr>))) = 0"
    "sint (Index (inputs (new_Context \<lparr>Index = - 12\<rparr>))) = - 12"
    by (simp_all add: new_Context_def)
  show ?thesis
    using getFieldByIndex_invalid_index_message [OF hn h0, of empty_registry]
      getFieldByIndex_invalid_index_message [OF hn h12, of empty_registry]
    unfolding n i by (simp add: s) blast
qed

text \<open>C4.  Let the UTF-16 name convert to the UTF-8 string \<open>nm\<close>, and let the call
  context start with an empty error slot.  Then \<open>getFieldByName\<close> succeeds if and only
  if \<open>nm\<close> occurs exactly once among the field names of the schema; it then registers
  a proxy of the one field of that name.  Otherwise, whether \<open>nm\<close> is absent or
  carried by several fields, the call sets an error with the identifier
  \<open>ARROW_TABULAR_SCHEMA_AMBIGUOUS_FIELD_NAME\<close> and leaves the registry as it is.
  Whenever \<open>getFieldNames\<close> emits its string array, the UTF-16 name occurs in that
  array as often as \<open>nm\<close> occurs among the field names, so "exactly once" may be
  read off the output of \<open>getFieldNames\<close>.\<close>

theorem getFieldByName_succeeds_iff_unique:
  fixes ctx :: "Name_args Context" and c :: "'a Context"
  assumes "UTF16StringToUTF8 (Name (inputs ctx)) = Inr nm" and "error ctx = None"
  shows "(error (snd (getFieldByName self pm ctx)) = None
            \<longleftrightarrow> count_list (field_names (schema self)) nm = 1)
       \<and> (count_list (field_names (schema self)) nm = 1 \<longrightarrow>
            (\<exists>f. f \<in> set (Schema_fields (schema self)) \<and> name f = nm
                \<and> getFieldByName self pm ctx
                    = (snd (manageProxy pm (FieldProxy (ptr f))),
                       ctx\<lparr>outputs := (outputs ctx)(0 \<mapsto> UInt64Scalar (current_proxy_id pm))\<rparr>)))
       \<and> (count_list (field_names (schema self)) nm \<noteq> 1 \<longrightarrow>
            (\<exists>e. getFieldByName self pm ctx = (pm, ctx\<lparr>error := Some e\<rparr>)
                \<and> error_id e = ARROW_TABULAR_SCHEMA_AMBIGUOUS_FIELD_NAME))
       \<and> (\<forall>dims us. outputs c 0 = None
              \<and> outputs (getFieldNames self c) 0 = Some (StringArray dims us)
            \<longrightarrow> count_list us (Name (inputs ctx)) = count_list (field_names (schema self)) nm)"
proof -
  have names: "count_list us (Name (inputs ctx)) = count_list (field_names (schema self)) nm"
    if "outputs c 0 = None" "outputs (getFieldNames self c) 0 = Some (StringArray dims us)"
    for dims us
    using converted_names_count [OF getFieldNames_emitted(1) [OF that] assms(1)] .
  have lookup: "(error (snd (getFieldByName self pm ctx)) = None
            \<longleftrightarrow> count_list (field_names (schema self)) nm = 1)
       \<and> (count_list (field_names (schema self)) nm = 1 \<longrightarrow>
            (\<exists>f. f \<in> set (Schema_fields (schema self)) \<and> name f = nm
                \<and> getFieldByName self pm ctx
                    = (snd (manageProxy pm (FieldProxy (ptr f))),
                       ctx\<lparr>outputs := (outputs ctx)(0 \<mapsto> UInt64Scalar (current_proxy_id pm))\<rparr>)))
       \<and> (count_list (field_names (schema self)) nm \<noteq> 1 \<longrightarrow>
            (\<exists>e. getFieldByName self pm ctx = (pm, ctx\<lparr>error := Some e\<rparr>)
                \<and> error_id e = ARROW_TABULAR_SCHEMA_AMBIGUOUS_FIELD_NAME))"
  proof (cases rule: getFieldByName_cases [where self = self and pm = pm and ctx = ctx])
    case (unconvertible st)
    with assms(1) show ?thesis by simp
  next
    case (ambiguous nm')
    with assms(1) have nm': "nm' = nm" by simp
    define e where "e = status_error ARROW_TABULAR_SCHEMA_AMBIGUOUS_FIELD_NAME
      (CanReferenceFieldsByNames (schema self) [nm])"
    have "getFieldByName self pm ctx = (pm, ctx\<lparr>error := Some e\<rparr>)"
      and "error_id e = ARROW_TABULAR_SCHEMA_AMBIGUOUS_FIELD_NAME"
      using ambiguous(3) by (simp_all add: e_def nm' status_error_def)
    with ambiguous(2) show ?thesis
      unfolding nm' by auto
  next
    case (succeeded nm' f)
    with assms(1) have nm': "nm' = nm" by simp
    from succeeded(2,3,4,6) assms(2) show ?thesis
      unfolding nm' by auto
  qed
  from lookup names show ?thesis by blast
qed

theorem getFieldByName_succeeds_iff_unique_witness:
  "error (snd (getFieldByName (schema_of_names [''x'', ''y'']) empty_registry
                 (new_Context \<lparr>Name = [0x79]\<rparr>))) = None
   \<and> (\<exists>e. getFieldByName (schema_of_names [''x'', ''y'']) empty_registry
              (new_Context \<lparr>Name = [0x7A]\<rparr>)
            = (empty_registry, (new_Context \<lparr>Name = [0x7A]\<rparr>)\<lparr>error := Some e\<rparr>)
          \<and> error_id e = ARROW_TABULAR_SCHEMA_AMBIGUOUS_FIELD_NAME)
   \<and> (\<exists>e. getFieldByName (schema_of_names [''a'', ''a'', ''b'']) empty_registry
              (new_Context \<lparr>Name = [0x61]\<rparr>)
            = (empty_registry, (new_Context \<lparr>Name = [0x61]\<rparr>)\<lparr>error := Some e\<rparr>)
          \<and> error_id e = ARROW_TABULAR_SCHEMA_AMBIGUOUS_FIELD_NAME)
   \<and> count_list [[0x61], [0x61], [0x62]] [0x61 :: 16 word]
        = count_list (field_names (schema (schema_of_names [''a'', ''a'', ''b'']))) ''a''"
proof -
  let ?XY = "schema_of_names [''x'', ''y'']"
  let ?AAB = "schema_of_names [''a'', ''a'', ''b'']"
  let ?c = "new_Context () :: unit Context"
  have conv: "UTF16StringToUTF8 (Name (inputs (new_Context \<lparr>Name = [0x79]\<rparr>))) = Inr ''y''"
    "UTF16StringToUTF8 (Name (inputs (new_Context \<lparr>Name = [0x7A]\<rparr>))) = Inr ''z''"
    "UTF16StringToUTF8 (Name (inputs (new_Context \<lparr>Name = [0x61]\<rparr>))) = Inr ''a''"
    by (simp_all add: new_Context_def UTF16StringToUTF8_def is_surrogate_def utf8_encode_def
        char_of_eq_iff)
  have fresh: "error (new_Context \<lparr>Name = [0x79]\<rparr>) = None"
    "error (new_Context \<lparr>Name = [0x7A]\<rparr>) = None"
    "error (new_Context \<lparr>Name = [0x61]\<rparr>) = None"
    by (simp_all add: new_Context_def)
  have counts: "count_list (field_names (schema ?XY)) ''y'' = 1"
    "count_list (field_names (schema ?XY)) ''z'' \<noteq> 1"
    "count_list (field_names (schema ?AAB)) ''a'' \<noteq> 1"
    by (simp_all add: schema_of_names_def field_names_def example_field_def)
  have emitted: "outputs ?c 0 = None
      \<and> outputs (getFieldNames ?AAB ?c) 0 = Some (StringArray [1, 3] [[0x61], [0x61], [0x62]])"
    by (simp add: new_Context_def getFieldNames_def schema_of_names_def field_names_def
        example_field_def num_fields_def UTF8StringToUTF16_def utf16_encode_def)
  have name_a: "Name (inputs (new_Context \<lparr>Name = [0x61]\<rparr>)) = [0x61]"
    by (simp add: new_Context_def)
  show ?thesis
    using getFieldByName_succeeds_iff_unique [OF conv(1) fresh(1), of ?XY empty_registry ?c]
      getFieldByName_succeeds_iff_unique [OF conv(2) fresh(2), of ?XY empty_registry ?c]
      getFieldByName_succeeds_iff_unique [OF conv(3) fresh(3), of ?AAB empty_registry ?c]
      counts emitted
    unfolding name_a by blast
qed

text \<open>C5.  \<open>make\<close> builds a schema proxy exactly when every identifier of the
  \<open>FieldProxyIDs\<close> sequence is registered as a field proxy with a field.  The schema
  then has one field per identifier, in the order of the sequence: its \<open>k\<close>-th field
  is the one held by the proxy of the \<open>k\<close>-th identifier.  \<open>getNumFields\<close> on the
  result emits the length of the sequence as the library's 32-bit \<open>int\<close>, which is
  that length as a number whenever it is below \<open>2^31\<close>.  The empty sequence yields a
  schema with no fields, for which \<open>num_fields\<close> is 0.\<close>

theorem Schema_make_preserves_fields:
  shows "((\<exists>self. Schema_make pm ids = Inr self)
            \<longleftrightarrow> (\<forall>i \<in> set ids. \<exists>f. getProxy pm i = Some (FieldProxy (ptr f))))
       \<and> (\<forall>self. Schema_make pm ids = Inr self \<longrightarrow>
             length (Schema_fields (schema self)) = length ids
           \<and> (\<forall>k < length ids.
                 getProxy pm (ids ! k) = Some (FieldProxy (ptr (Schema_fields (schema self) ! k))))
           \<and> getNumFields self c
               = c\<lparr>outputs := (outputs c)(0 \<mapsto> Int32Scalar (word_of_nat (length ids)))\<rparr>
           \<and> (length ids < 2 ^ 31 \<longrightarrow>
                 sint (word_of_nat (length ids) :: int32_t) = int (length ids)))
       \<and> Schema_make pm [] = Inr (Schema (arrow_Schema []))
       \<and> num_fields (arrow_Schema []) = 0"
proof (intro conjI allI impI)
  have "(\<exists>self. Schema_make pm ids = Inr self)
      \<longleftrightarrow> (\<exists>fs. list_all2 (\<lambda>i f. getProxy pm i = Some (FieldProxy (ptr f))) ids fs)"
    unfolding Schema_make_Inr
    by (metis Schema.sel arrow_Schema.sel)
  then show "(\<exists>self. Schema_make pm ids = Inr self)
      \<longleftrightarrow> (\<forall>i \<in> set ids. \<exists>f. getProxy pm i = Some (FieldProxy (ptr f)))"
    by (simp add: list_all2_ex)
next
  fix self assume "Schema_make pm ids = Inr self"
  then have all: "list_all2 (\<lambda>i f. getProxy pm i = Some (FieldProxy (ptr f))) ids
      (Schema_fields (schema self))"
    by (simp add: Schema_make_Inr)
  then show len: "length (Schema_fields (schema self)) = length ids"
    by (simp add: list_all2_lengthD)
  show "getNumFields self c
      = c\<lparr>outputs := (outputs c)(0 \<mapsto> Int32Scalar (word_of_nat (length ids)))\<rparr>"
    by (simp add: getNumFields_def num_fields_def len)
  fix k assume "k < length ids"
  with all show "getProxy pm (ids ! k)
      = Some (FieldProxy (ptr (Schema_fields (schema self) ! k)))"
    by (simp add: list_all2_conv_all_nth)
next
  assume "length ids < 2 ^ 31"
  then show "sint (word_of_nat (length ids) :: int32_t) = int (length ids)"
    by (simp add: signed_of_nat signed_take_bit_int_eq_self)
next
  show "Schema_make pm [] = Inr (Schema (arrow_Schema []))"
    by (simp add: Schema_make_def arrow_schema_def)
  show "num_fields (arrow_Schema []) = 0"
    by (simp add: num_fields_def)
qed

theorem Schema_make_preserves_fields_witness:
  "Schema_make (registry_of_names [''a'', ''b'', ''c'']) [2, 0, 1]
     = Inr (schema_of_names [''c'', ''a'', ''b''])
   \<and> getNumFields (schema_of_names [''c'', ''a'', ''b'']) (new_Context ())
     = (new_Context ())\<lparr>outputs := [0 \<mapsto> Int32Scalar 3]\<rparr>
   \<and> length (Schema_fields (schema (schema_of_names [''c'', ''a'', ''b'']))) = 3
   \<and> Schema_make empty_registry [] = Inr (schema_of_names [])"
proof -
  let ?pm = "registry_of_names [''a'', ''b'', ''c'']"
  let ?S = "schema_of_names [''c'', ''a'', ''b'']"
  have run: "Schema_make ?pm [2, 0, 1] = Inr ?S"
    by (simp add: Schema_make_def registry_of_names_def empty_registry_def manageProxy_def
        getProxy_def arrow_schema_def schema_of_names_def)
  have small: "length [2, 0, 1 :: uint64_t] < 2 ^ 31"
    by simp
  from Schema_make_preserves_fields [of ?pm "[2, 0, 1]" "new_Context ()"] run small
  have "length (Schema_fields (schema ?S)) = length [2, 0, 1 :: uint64_t]"
    and "getNumFields ?S (new_Context ())
      = (new_Context ())\<lparr>outputs := (outputs (new_Context ()))
          (0 \<mapsto> Int32Scalar (word_of_nat (length [2, 0, 1 :: uint64_t])))\<rparr>"
    by blast+
  moreover have "Schema_make empty_registry [] = Inr (schema_of_names [])"
    using Schema_make_preserves_fields [of empty_registry "[]" "new_Context ()"]
    by (simp add: schema_of_names_def)
  ultimately show ?thesis
    using run by (simp add: new_Context_def)
qed

text \<open>C6.  \<open>getFieldNames\<close> converts the UTF-8 field names to UTF-16 in the order of
  the fields.  If any name fails to convert, the call sets an error with the
  identifier \<open>UNICODE_CONVERSION_ERROR_ID\<close> and changes nothing else, so no output is
  written.  If every name converts, it writes to \<open>outputs[0]\<close> a string array of
  dimensions \<open>1 \<times> num_fields\<close> whose \<open>k\<close>-th element is the conversion of the \<open>k\<close>-th
  field's name; the array has one element per field, and that number is the
  count \<open>getNumFields\<close> reports for every schema whose field count fits the
  library's \<open>int\<close>.  For a schema without fields the array is \<open>1 \<times> 0\<close>.\<close>

theorem getFieldNames_all_or_nothing:
  fixes c :: "'a Context" and self :: Schema
  defines "names \<equiv> field_names (schema self)"
  shows "((\<exists>nm \<in> set names. \<exists>st. UTF8StringToUTF16 nm = Inl st) \<longrightarrow>
            (\<exists>st. getFieldNames self c
                    = c\<lparr>error := Some (status_error UNICODE_CONVERSION_ERROR_ID st)\<rparr>))
       \<and> ((\<forall>nm \<in> set names. \<exists>u. UTF8StringToUTF16 nm = Inr u) \<longrightarrow>
            (\<exists>us. getFieldNames self c
                    = c\<lparr>outputs := (outputs c)
                          (0 \<mapsto> StringArray [1, scast (num_fields (schema self))] us)\<rparr>
                 \<and> length us = length (Schema_fields (schema self))
                 \<and> (\<forall>k < length us.
                       UTF8StringToUTF16 (name (Schema_fields (schema self) ! k)) = Inr (us ! k))
                 \<and> (Schema_fits (schema self) \<longrightarrow>
                       unat (scast (num_fields (schema self)) :: size_t) = length us
                     \<and> sint (num_fields (schema self)) = int (length us))))
       \<and> (Schema_fields (schema self) = [] \<longrightarrow>
            getFieldNames self c = c\<lparr>outputs := (outputs c)(0 \<mapsto> StringArray [1, 0] [])\<rparr>)"
proof (intro conjI impI)
  assume "\<exists>nm \<in> set names. \<exists>st. UTF8StringToUTF16 nm = Inl st"
  then obtain nm st where bad: "nm \<in> set names" "UTF8StringToUTF16 nm = Inl st" by blast
  show "\<exists>st. getFieldNames self c
      = c\<lparr>error := Some (status_error UNICODE_CONVERSION_ERROR_ID st)\<rparr>"
  proof (cases rule: getFieldNames_cases [where self = self and c = c])
    case (failed st')
    then show ?thesis by blast
  next
    case (succeeded us)
    then have "list_all2 (\<lambda>n u. UTF8StringToUTF16 n = Inr u) names us"
      by (simp add: convert_names_Inr names_def)
    with bad(1) obtain u where "UTF8StringToUTF16 nm = Inr u"
      by (auto simp add: list_all2_conv_all_nth in_set_conv_nth)
    with bad(2) show ?thesis by simp
  qed
next
  assume good: "\<forall>nm \<in> set names. \<exists>u. UTF8StringToUTF16 nm = Inr u"
  show "\<exists>us. getFieldNames self c
        = c\<lparr>outputs := (outputs c)
              (0 \<mapsto> StringArray [1, scast (num_fields (schema self))] us)\<rparr>
      \<and> length us = length (Schema_fields (schema self))
      \<and> (\<forall>k < length us.
            UTF8StringToUTF16 (name (Schema_fields (schema self) ! k)) = Inr (us ! k))
      \<and> (Schema_fits (schema self) \<longrightarrow>
            unat (scast (num_fields (schema self)) :: size_t) = length us
          \<and> sint (num_fields (schema self)) = int (length us))"
  proof (cases rule: getFieldNames_cases [where self = self and c = c])
    case (failed st)
    from convert_names_Inl [OF failed(1)] obtain k where
      "k < length names" "UTF8StringToUTF16 (names ! k) = Inl st"
      by (auto simp add: names_def)
    with good show ?thesis by (metis nth_mem sum.distinct(1))
  next
    case (succeeded us)
    then have all: "list_all2 (\<lambda>n u. UTF8StringToUTF16 n = Inr u) names us"
      by (simp add: convert_names_Inr names_def)
    have len: "length us = length (Schema_fields (schema self))"
      using list_all2_lengthD [OF all] by (simp add: names_def field_names_def)
    have nth: "UTF8StringToUTF16 (name (Schema_fields (schema self) ! k)) = Inr (us ! k)"
      if "k < length us" for k
      using all that len by (simp add: list_all2_conv_all_nth names_def field_names_def)
    have fits: "unat (scast (num_fields (schema self)) :: size_t) = length us
        \<and> sint (num_fields (schema self)) = int (length us)"
      if "Schema_fits (schema self)"
      using scast_num_fields_fits [OF that] num_fields_fits [OF that] len by simp
    from succeeded(2) len nth fits show ?thesis by blast
  qed
next
  assume empty: "Schema_fields (schema self) = []"
  then show "getFieldNames self c = c\<lparr>outputs := (outputs c)(0 \<mapsto> StringArray [1, 0] [])\<rparr>"
    by (simp add: getFieldNames_def field_names_def num_fields_def)
qed

theorem getFieldNames_all_or_nothing_witness:
  "(\<exists>us. getFieldNames (schema_of_names [''a'', ''b'', ''c'']) (new_Context ())
           = (new_Context ())\<lparr>outputs := [0 \<mapsto> StringArray [1, 3] us]\<rparr>
         \<and> length us = 3 \<and> us ! 0 = [0x61] \<and> us ! 1 = [0x62] \<and> us ! 2 = [0x63])
   \<and> (\<exists>st. getFieldNames (schema_of_names [''a'', [CHR 0xFF], ''c'']) (new_Context ())
           = (new_Context ())\<lparr>error := Some (status_error UNICODE_CONVERSION_ERROR_ID st)\<rparr>)
   \<and> getFieldNames (schema_of_names []) (new_Context ())
        = (new_Context ())\<lparr>outputs := [0 \<mapsto> StringArray [1, 0] []]\<rparr>"
proof -
  let ?S = "schema_of_names [''a'', ''b'', ''c'']"
  let ?B = "schema_of_names [''a'', [CHR 0xFF], ''c'']"
  let ?c = "new_Context () :: unit Context"
  have good: "\<forall>nm \<in> set (field_names (schema ?S)). \<exists>u. UTF8StringToUTF16 nm = Inr u"
    by (simp add: schema_of_names_def field_names_def example_field_def UTF8StringToUTF16_def
        utf16_encode_def)
  have bad: "\<exists>nm \<in> set (field_names (schema ?B)). \<exists>st. UTF8StringToUTF16 nm = Inl st"
    by (simp add: schema_of_names_def field_names_def example_field_def UTF8StringToUTF16_def
        utf16_encode_def)
  have empty: "Schema_fields (schema (schema_of_names [])) = []"
    by (simp add: schema_of_names_def)
  have n: "num_fields (schema ?S) = 3"
    by (simp add: schema_of_names_def num_fields_def)
  from getFieldNames_all_or_nothing [of ?S ?c] good obtain us where
    run: "getFieldNames ?S ?c = ?c\<lparr>outputs := (outputs ?c)
            (0 \<mapsto> StringArray [1, scast (num_fields (schema ?S))] us)\<rparr>"
    and len: "length us = length (Schema_fields (schema ?S))"
    and nth: "\<forall>k < length us.
        UTF8StringToUTF16 (name (Schema_fields (schema ?S) ! k)) = Inr (us ! k)"
    by blast
  have len3: "length us = 3"
    using len by (simp add: schema_of_names_def)
  have "us ! 0 = [0x61]" "us ! 1 = [0x62]" "us ! 2 = [0x63]"
    using nth [rule_format, of 0] nth [rule_format, of 1] nth [rule_format, of 2] len3
    by (simp_all add: schema_of_names_def example_field_def UTF8StringToUTF16_def
        utf16_encode_def)
  with run len3 have first: "\<exists>us. getFieldNames ?S ?c
        = ?c\<lparr>outputs := [0 \<mapsto> StringArray [1, 3] us]\<rparr>
      \<and> length us = 3 \<and> us ! 0 = [0x61] \<and> us ! 1 = [0x62] \<and> us ! 2 = [0x63]"
    by (intro exI [of _ us]) (simp add: n new_Context_def)
  from getFieldNames_all_or_nothing [of ?B ?c] bad
  have second: "\<exists>st. getFieldNames ?B ?c
      = ?c\<lparr>error := Some (status_error UNICODE_CONVERSION_ERROR_ID st)\<rparr>"
    by blast
  from getFieldNames_all_or_nothing [of "schema_of_names []" ?c] empty
  have third: "getFieldNames (schema_of_names []) ?c
      = ?c\<lparr>outputs := [0 \<mapsto> StringArray [1, 0] []]\<rparr>"
    by (simp add: new_Context_def)
  from first second third show ?thesis by blast
qed

text \<open>C7.  Each of the five methods \<open>getFieldByIndex\<close>, \<open>getFieldByName\<close>,
  \<open>getNumFields\<close>, \<open>getFieldNames\<close> and \<open>toString\<close>, called with a context whose
  \<open>outputs[0]\<close> and error record are still unset, returns, and returns with exactly
  one of the two set: either \<open>outputs[0]\<close> is written and no error is set, or the error
  is set and \<open>outputs[0]\<close> is left unwritten.  There is no third outcome.  The
  rendering \<open>ToString\<close> of the library is arbitrary.\<close>

theorem every_method_sets_output_xor_error:
  fixes ci :: "Index_args Context" and cn :: "Name_args Context" and c :: "'a Context"
  assumes "outputs ci 0 = None" and "error ci = None"
    and "outputs cn 0 = None" and "error cn = None"
    and "outputs c 0 = None" and "error c = None"
  shows "(\<exists>pm' c'. getFieldByIndex self pm ci = Some (pm', c') \<and> output_xor_error ci c')
       \<and> (\<exists>pm' c'. getFieldByName self pm cn = (pm', c') \<and> output_xor_error cn c')
       \<and> output_xor_error c (getNumFields self c)
       \<and> output_xor_error c (getFieldNames self c)
       \<and> output_xor_error c (toString ToString self c)"
proof (intro conjI)
  show "\<exists>pm' c'. getFieldByIndex self pm ci = Some (pm', c') \<and> output_xor_error ci c'"
    by (cases rule: getFieldByIndex_cases [where self = self and pm = pm and ctx = ci])
       (use assms(1,2) in \<open>auto intro: output_xor_error_output output_xor_error_error\<close>)
  show "\<exists>pm' c'. getFieldByName self pm cn = (pm', c') \<and> output_xor_error cn c'"
    by (cases rule: getFieldByName_cases [where self = self and pm = pm and ctx = cn])
       (use assms(3,4) in \<open>auto intro: output_xor_error_output output_xor_error_error\<close>)
  show "output_xor_error c (getNumFields self c)"
    using assms(5,6) by (simp add: getNumFields_output output_xor_error_output)
  show "output_xor_error c (getFieldNames self c)"
    by (cases rule: getFieldNames_cases [where self = self and c = c])
       (use assms(5,6) in \<open>auto intro: output_xor_error_output output_xor_error_error\<close>)
  show "output_xor_error c (toString ToString self c)"
    by (cases rule: toString_cases [where self = self and c = c and ToString = ToString])
       (use assms(5,6) in \<open>auto intro: output_xor_error_output output_xor_error_error\<close>)
qed

theorem every_method_sets_output_xor_error_witness:
  "(\<exists>pm' c'. getFieldByIndex (schema_of_names [''a'', ''b'', ''c'']) empty_registry
                (new_Context \<lparr>Index = 2\<rparr>) = Some (pm', c')
              \<and> output_xor_error (new_Context \<lparr>Index = 2\<rparr>) c')
   \<and> (\<exists>pm' c'. getFieldByName (schema_of_names [''a'', ''b'', ''c'']) empty_registry
                (new_Context \<lparr>Name = [0x62]\<rparr>) = (pm', c')
              \<and> output_xor_error (new_Context \<lparr>Name = [0x62]\<rparr>) c')
   \<and> output_xor_error (new_Context ())
         (getNumFields (schema_of_names [''a'', ''b'', ''c'']) (new_Context ()))
   \<and> output_xor_error (new_Context ())
         (getFieldNames (schema_of_names [''a'', ''b'', ''c'']) (new_Context ()))
   \<and> output_xor_error (new_Context ())
         (toString field_names_text (schema_of_names [''a'', ''b'', ''c'']) (new_Context ()))"
proof -
  have "outputs (new_Context \<lparr>Index = 2\<rparr>) 0 = None"
    and "error (new_Context \<lparr>Index = 2\<rparr>) = None"
    and "outputs (new_Context \<lparr>Name = [0x62]\<rparr>) 0 = None"
    and "error (new_Context \<lparr>Name = [0x62]\<rparr>) = None"
    and "outputs (new_Context ()) 0 = None"
    and "error (new_Context ()) = None"
    by (simp_all add: new_Context_def)
  then show ?thesis
    by (rule every_method_sets_output_xor_error)
qed

text \<open>C8.  Every successful \<open>getFieldByIndex\<close> or \<open>getFieldByName\<close> call registers
  a fresh entry in the proxy registry (its identifier was not in use before the call)
  and returns that identifier.  A second call with the same argument on the same
  schema proxy succeeds as well and returns a different identifier; both entries
  are in the registry afterwards and hold equal field proxies, so nothing is cached
  or shared.  The registry is one whose identifiers were all handed out by its
  counter, and the call contexts start with an empty error slot.\<close>

theorem lookups_register_fresh_proxies:
  fixes ctx :: "Index_args Context" and ctxn :: "Name_args Context"
  assumes "ProxyManager_ok pm" and "error ctx = None" and "error ctxn = None"
  shows "(\<forall>pm1 c1. getFieldByIndex self pm ctx = Some (pm1, c1) \<and> error c1 = None \<longrightarrow>
           (\<exists>id1 id2 pm2 c2 f.
               outputs c1 0 = Some (UInt64Scalar id1)
             \<and> getProxy pm id1 = None \<and> getProxy pm1 id1 = Some (FieldProxy (ptr f))
             \<and> getFieldByIndex self pm1 ctx = Some (pm2, c2) \<and> error c2 = None
             \<and> outputs c2 0 = Some (UInt64Scalar id2)
             \<and> getProxy pm1 id2 = None \<and> getProxy pm2 id2 = Some (FieldProxy (ptr f))
             \<and> getProxy pm2 id1 = Some (FieldProxy (ptr f))
             \<and> id1 \<noteq> id2))
       \<and> (\<forall>pm1 c1. getFieldByName self pm ctxn = (pm1, c1) \<and> error c1 = None \<longrightarrow>
           (\<exists>id1 id2 pm2 c2 f.
               outputs c1 0 = Some (UInt64Scalar id1)
             \<and> getProxy pm id1 = None \<and> getProxy pm1 id1 = Some (FieldProxy (ptr f))
             \<and> getFieldByName self pm1 ctxn = (pm2, c2) \<and> error c2 = None
             \<and> outputs c2 0 = Some (UInt64Scalar id2)
             \<and> getProxy pm1 id2 = None \<and> getProxy pm2 id2 = Some (FieldProxy (ptr f))
             \<and> getProxy pm2 id1 = Some (FieldProxy (ptr f))
             \<and> id1 \<noteq> id2))"
proof (intro conjI allI impI)
  fix pm1 c1
  assume a: "getFieldByIndex self pm ctx = Some (pm1, c1) \<and> error c1 = None"
  show "\<exists>id1 id2 pm2 c2 f.
               outputs c1 0 = Some (UInt64Scalar id1)
             \<and> getProxy pm id1 = None \<and> getProxy pm1 id1 = Some (FieldProxy (ptr f))
             \<and> getFieldByIndex self pm1 ctx = Some (pm2, c2) \<and> error c2 = None
             \<and> outputs c2 0 = Some (UInt64Scalar id2)
             \<and> getProxy pm1 id2 = None \<and> getProxy pm2 id2 = Some (FieldProxy (ptr f))
             \<and> getProxy pm2 id1 = Some (FieldProxy (ptr f))
             \<and> id1 \<noteq> id2"
  proof (cases rule: getFieldByIndex_cases [where self = self and pm = pm and ctx = ctx])
    case (failed e)
    with a show ?thesis by auto
  next
    case (succeeded f)
    let ?p = "FieldProxy (ptr f)"
    from succeeded(1) a have pm1: "pm1 = snd (manageProxy pm ?p)"
      and c1: "c1 = ctx\<lparr>outputs := (outputs ctx)(0 \<mapsto> UInt64Scalar (current_proxy_id pm))\<rparr>"
      by simp_all
    have second: "getFieldByIndex self pm1 ctx =
        Some (snd (manageProxy pm1 ?p),
              ctx\<lparr>outputs := (outputs ctx)(0 \<mapsto> UInt64Scalar (current_proxy_id pm1))\<rparr>)"
      using getFieldByIndex_valid [OF succeeded(2,3), of pm1] succeeded(4) by simp
    note reg = manageProxy_twice [OF assms(1) pm1]
    show ?thesis
      apply (rule exI [of _ "current_proxy_id pm"])
      apply (rule exI [of _ "current_proxy_id pm1"])
      apply (rule exI [of _ "snd (manageProxy pm1 ?p)"])
      apply (rule exI [of _ "ctx\<lparr>outputs := (outputs ctx)(0 \<mapsto> UInt64Scalar (current_proxy_id pm1))\<rparr>"])
      apply (rule exI [of _ f])
      using reg second assms(2) apply (simp add: c1)
      done
  qed
next
  fix pm1 c1
  assume a: "getFieldByName self pm ctxn = (pm1, c1) \<and> error c1 = None"
  show "\<exists>id1 id2 pm2 c2 f.
               outputs c1 0 = Some (UInt64Scalar id1)
             \<and> getProxy pm id1 = None \<and> getProxy pm1 id1 = Some (FieldProxy (ptr f))
             \<and> getFieldByName self pm1 ctxn = (pm2, c2) \<and> error c2 = None
             \<and> outputs c2 0 = Some (UInt64Scalar id2)
             \<and> getProxy pm1 id2 = None \<and> getProxy pm2 id2 = Some (FieldProxy (ptr f))
             \<and> getProxy pm2 id1 = Some (FieldProxy (ptr f))
             \<and> id1 \<noteq> id2"
  proof (cases rule: getFieldByName_cases [where self = self and pm = pm and ctx = ctxn])
    case (unconvertible st)
    with a show ?thesis by auto
  next
    case (ambiguous nm)
    with a show ?thesis by auto
  next
    case (succeeded nm f)
    let ?p = "FieldProxy (ptr f)"
    from succeeded(6) a have pm1: "pm1 = snd (manageProxy pm ?p)"
      and c1: "c1 = ctxn\<lparr>outputs := (outputs ctxn)(0 \<mapsto> UInt64Scalar (current_proxy_id pm))\<rparr>"
      by simp_all
    note g = succeeded(5)
    have second: "getFieldByName self pm1 ctxn =
        (snd (manageProxy pm1 ?p),
         ctxn\<lparr>outputs := (outputs ctxn)(0 \<mapsto> UInt64Scalar (current_proxy_id pm1))\<rparr>)"
      using getFieldByName_unique [OF succeeded(1,2), of pm1] g by simp
    note reg = manageProxy_twice [OF assms(1) pm1]
    show ?thesis
      apply (rule exI [of _ "current_proxy_id pm"])
      apply (rule exI [of _ "current_proxy_id pm1"])
      apply (rule exI [of _ "snd (manageProxy pm1 ?p)"])
      apply (rule exI [of _ "ctxn\<lparr>outputs := (outputs ctxn)(0 \<mapsto> UInt64Scalar (current_proxy_id pm1))\<rparr>"])
      apply (rule exI [of _ f])
      using reg second assms(3) apply (simp add: c1)
      done
  qed
qed

theorem lookups_register_fresh_proxies_witness:
  "(\<exists>pm1 c1 pm2 c2.
       getFieldByIndex (schema_of_names [''x'', ''y'']) empty_registry
         (new_Context \<lparr>Index = 2\<rparr>) = Some (pm1, c1)
     \<and> getFieldByIndex (schema_of_names [''x'', ''y'']) pm1
         (new_Context \<lparr>Index = 2\<rparr>) = Some (pm2, c2)
     \<and> outputs c1 0 = Some (UInt64Scalar 0) \<and> outputs c2 0 = Some (UInt64Scalar 1)
     \<and> getProxy pm2 0 = Some (FieldProxy (ptr (example_field ''y'')))
     \<and> getProxy pm2 1 = Some (FieldProxy (ptr (example_field ''y''))))
   \<and> (\<exists>pm1 c1 pm2 c2.
       getFieldByName (schema_of_names [''x'', ''y'']) empty_registry
         (new_Context \<lparr>Name = [0x79]\<rparr>) = (pm1, c1)
     \<and> getFieldByName (schema_of_names [''x'', ''y'']) pm1
         (new_Context \<lparr>Name = [0x79]\<rparr>) = (pm2, c2)
     \<and> outputs c1 0 = Some (UInt64Scalar 0) \<and> outputs c2 0 = Some (UInt64Scalar 1)
     \<and> getProxy pm2 0 = Some (FieldProxy (ptr (example_field ''y'')))
     \<and> getProxy pm2 1 = Some (FieldProxy (ptr (example_field ''y''))))"
proof -
  let ?S = "schema_of_names [''x'', ''y'']"
  let ?ci = "new_Context \<lparr>Index = 2\<rparr>"
  let ?cn = "new_Context \<lparr>Name = [0x79]\<rparr>"
  let ?p = "FieldProxy (ptr (example_field ''y''))"
  have ok: "ProxyManager_ok empty_registry"
    by (simp add: ProxyManager_ok_def empty_registry_def)
  have fresh: "error ?ci = None" "error ?cn = None"
    by (simp_all add: new_Context_def)
  have n: "num_fields (schema ?S) = 2"
    by (simp add: schema_of_names_def num_fields_def)
  have h1: "1 \<le> sint (Index (inputs ?ci))"
    and h2: "sint (Index (inputs ?ci)) \<le> sint (num_fields (schema ?S))"
    by (simp_all add: n new_Context_def)
  have fld: "Schema_fields (schema ?S) ! nat (sint (Index (inputs ?ci)) - 1) = example_field ''y''"
    by (simp add: new_Context_def schema_of_names_def)
  have y: "UTF16StringToUTF8 (Name (inputs ?cn)) = Inr ''y''"
    by (simp add: new_Context_def UTF16StringToUTF8_def is_surrogate_def utf8_encode_def
        char_of_eq_iff)
  have once: "count_list (field_names (schema ?S)) ''y'' = 1"
    by (simp add: schema_of_names_def field_names_def example_field_def)
  have g: "GetFieldByName (schema ?S) ''y'' = ptr (example_field ''y'')"
    by (simp add: GetFieldByName_def GetAllFieldsByName_def schema_of_names_def
        example_field_def)
  have first_i: "getFieldByIndex ?S empty_registry ?ci =
      Some (snd (manageProxy empty_registry ?p),
            ?ci\<lparr>outputs := (outputs ?ci)(0 \<mapsto> UInt64Scalar 0)\<rparr>)"
    using getFieldByIndex_valid [OF h1 h2, of empty_registry]
    unfolding fld by (simp add: empty_registry_def new_Context_def)
  have first_n: "getFieldByName ?S empty_registry ?cn =
      (snd (manageProxy empty_registry ?p),
       ?cn\<lparr>outputs := (outputs ?cn)(0 \<mapsto> UInt64Scalar 0)\<rparr>)"
    using getFieldByName_unique [OF y once, of empty_registry]
    by (simp add: g empty_registry_def)
  have e: "error (?ci\<lparr>outputs := (outputs ?ci)(0 \<mapsto> UInt64Scalar 0)\<rparr>) = None"
    "error (?cn\<lparr>outputs := (outputs ?cn)(0 \<mapsto> UInt64Scalar 0)\<rparr>) = None"
    by (simp_all add: new_Context_def)
  note inst = lookups_register_fresh_proxies [OF ok fresh, of ?S]
  from inst first_i e(1) obtain id1 id2 pm2 c2 f where i:
    "outputs (?ci\<lparr>outputs := (outputs ?ci)(0 \<mapsto> UInt64Scalar 0)\<rparr>) 0 = Some (UInt64Scalar id1)"
    "getProxy (snd (manageProxy empty_registry ?p)) id1 = Some (FieldProxy (ptr f))"
    "getFieldByIndex ?S (snd (manageProxy empty_registry ?p)) ?ci = Some (pm2, c2)"
    "outputs c2 0 = Some (UInt64Scalar id2)"
    "getProxy pm2 id2 = Some (FieldProxy (ptr f))"
    "getProxy pm2 id1 = Some (FieldProxy (ptr f))"
    by blast
  from inst first_n e(2) obtain id1' id2' pm2' c2' f' where nm:
    "outputs (?cn\<lparr>outputs := (outputs ?cn)(0 \<mapsto> UInt64Scalar 0)\<rparr>) 0 = Some (UInt64Scalar id1')"
    "getProxy (snd (manageProxy empty_registry ?p)) id1' = Some (FieldProxy (ptr f'))"
    "getFieldByName ?S (snd (manageProxy empty_registry ?p)) ?cn = (pm2', c2')"
    "outputs c2' 0 = Some (UInt64Scalar id2')"
    "getProxy pm2' id2' = Some (FieldProxy (ptr f'))"
    "getProxy pm2' id1' = Some (FieldProxy (ptr f'))"
    by blast
  have second_i: "getFieldByIndex ?S (snd (manageProxy empty_registry ?p)) ?ci =
      Some (snd (manageProxy (snd (manageProxy empty_registry ?p)) ?p),
            ?ci\<lparr>outputs := (outputs ?ci)(0 \<mapsto> UInt64Scalar 1)\<rparr>)"
    using getFieldByIndex_valid [OF h1 h2, of "snd (manageProxy empty_registry ?p)"]
    unfolding fld by (simp add: empty_registry_def new_Context_def manageProxy_def)
  have second_n: "getFieldByName ?S (snd (manageProxy empty_registry ?p)) ?cn =
      (snd (manageProxy (snd (manageProxy empty_registry ?p)) ?p),
       ?cn\<lparr>outputs := (outputs ?cn)(0 \<mapsto> UInt64Scalar 1)\<rparr>)"
    using getFieldByName_unique [OF y once, of "snd (manageProxy empty_registry ?p)"]
    by (simp add: g empty_registry_def manageProxy_def)
  have id1: "id1 = 0" "id1' = 0" using i(1) nm(1) by simp_all
  have id2: "id2 = 1" "id2' = 1" using i(3,4) nm(3,4) second_i second_n by auto
  have f: "f = example_field ''y''" "f' = example_field ''y''"
    using i(2) nm(2) unfolding id1 by (simp_all add: manageProxy_lookup empty_registry_def)
  show ?thesis
    using first_i first_n i(3-6) nm(3-6) unfolding id1 id2 f by auto
qed

text \<open>C9.  \<open>getFieldByIndex\<close> never reads \<open>schema->field(index)\<close> out of range: the
  call always returns.  It gets past both error returns exactly when
  \<open>1 \<le> matlab_index \<le> num_fields\<close>, and then the offset \<open>index = matlab_index - 1\<close>
  satisfies \<open>0 \<le> index \<le> n - 1\<close> and lies within the field sequence, so the
  library's unchecked access finds a field; under that condition neither error
  return is taken.\<close>

theorem getFieldByIndex_field_access_in_range:
  shows "getFieldByIndex self pm ctx \<noteq> None
    \<and> ((\<forall>e. getFieldByIndex self pm ctx \<noteq> Some (pm, ctx\<lparr>error := Some e\<rparr>))
         \<longleftrightarrow> 1 \<le> sint (Index (inputs ctx))
               \<and> sint (Index (inputs ctx)) \<le> sint (num_fields (schema self)))
    \<and> (1 \<le> sint (Index (inputs ctx))
          \<and> sint (Index (inputs ctx)) \<le> sint (num_fields (schema self))
        \<longrightarrow> 0 \<le> sint (Index (inputs ctx) - 1)
          \<and> sint (Index (inputs ctx) - 1) \<le> sint (num_fields (schema self)) - 1
          \<and> nat (sint (Index (inputs ctx) - 1)) < length (Schema_fields (schema self))
          \<and> Schema_field (schema self) (Index (inputs ctx) - 1)
              = Some (ptr (Schema_fields (schema self) ! nat (sint (Index (inputs ctx) - 1)))))"
proof -
  let ?i = "Index (inputs ctx)"
  let ?n = "num_fields (schema self)"
  have in_range: "0 \<le> sint (?i - 1) \<and> sint (?i - 1) \<le> sint ?n - 1
      \<and> nat (sint (?i - 1)) < length (Schema_fields (schema self))
      \<and> Schema_field (schema self) (?i - 1)
          = Some (ptr (Schema_fields (schema self) ! nat (sint (?i - 1))))"
    if "1 \<le> sint ?i" "sint ?i \<le> sint ?n"
    using that Schema_field_in_range [OF that] by (simp add: sint_pred)
  consider (empty) "?n = 0" | (invalid) "?n \<noteq> 0" "sint ?i < 1 \<or> sint ?n < sint ?i"
    | (valid) "1 \<le> sint ?i" "sint ?i \<le> sint ?n"
    by fastforce
  then have "getFieldByIndex self pm ctx \<noteq> None
    \<and> ((\<forall>e. getFieldByIndex self pm ctx \<noteq> Some (pm, ctx\<lparr>error := Some e\<rparr>))
         \<longleftrightarrow> 1 \<le> sint ?i \<and> sint ?i \<le> sint ?n)"
  proof cases
    case empty
    then have "\<not> (1 \<le> sint ?i \<and> sint ?i \<le> sint ?n)" by simp
    then show ?thesis using getFieldByIndex_empty [OF empty, of pm ctx] by auto
  next
    case invalid
    then have "\<not> (1 \<le> sint ?i \<and> sint ?i \<le> sint ?n)" by auto
    then show ?thesis using getFieldByIndex_invalid [OF invalid, of pm] by auto
  next
    case valid
    then show ?thesis using getFieldByIndex_valid [OF valid, of pm] manageProxy_changes by auto
  qed
  with in_range show ?thesis by blast
qed

theorem getFieldByIndex_field_access_in_range_witness:
  "getFieldByIndex (schema_of_names [''a'', ''b'', ''c'']) empty_registry
       (new_Context \<lparr>Index = 3\<rparr>) \<noteq> None
   \<and> (\<forall>e. getFieldByIndex (schema_of_names [''a'', ''b'', ''c'']) empty_registry
              (new_Context \<lparr>Index = 3\<rparr>)
            \<noteq> Some (empty_registry, (new_Context \<lparr>Index = 3\<rparr>)\<lparr>error := Some e\<rparr>))
   \<and> Schema_field (schema (schema_of_names [''a'', ''b'', ''c''])) (3 - 1)
        = Some (ptr (example_field ''c''))"
proof -
  let ?S = "schema_of_names [''a'', ''b'', ''c'']"
  let ?c = "new_Context \<lparr>Index = 3\<rparr>"
  have n: "num_fields (schema ?S) = 3"
    by (simp add: schema_of_names_def num_fields_def)
  have h: "1 \<le> sint (Index (inputs ?c))
      \<and> sint (Index (inputs ?c)) \<le> sint (num_fields (schema ?S))"
    by (simp add: new_Context_def n)
  have f: "Schema_fields (schema ?S) ! nat (sint (Index (inputs ?c) - 1)) = example_field ''c''"
    by (simp add: new_Context_def schema_of_names_def)
  have i: "Index (inputs ?c) = 3"
    by (simp add: new_Context_def)
  show ?thesis
    using getFieldByIndex_field_access_in_range [of ?S empty_registry ?c] h
    unfolding f unfolding i by simp
qed

text \<open>C10.  On every error path of \<open>getFieldByIndex\<close> (empty schema, index out of
  range) and of \<open>getFieldByName\<close> (conversion failure, ambiguous or unknown name) the
  registry after the call is the registry before it: no field proxy is created or
  registered, and no output is written.  Conversely the registry changes only in a
  call that sets no error, by the registration of one field proxy whose identifier
  is the output.  The call contexts start with an empty error slot.\<close>

theorem failed_lookup_leaves_registry:
  fixes ctx :: "Index_args Context" and ctxn :: "Name_args Context"
  assumes "error ctx = None" and "error ctxn = None"
  shows "(\<forall>pm' ctx'. getFieldByIndex self pm ctx = Some (pm', ctx') \<and> error ctx' \<noteq> None
            \<longrightarrow> pm' = pm \<and> outputs ctx' = outputs ctx)
       \<and> (\<forall>pm' ctx'. getFieldByName self pm ctxn = (pm', ctx') \<and> error ctx' \<noteq> None
            \<longrightarrow> pm' = pm \<and> outputs ctx' = outputs ctxn)
       \<and> (\<forall>pm' ctx'. getFieldByIndex self pm ctx = Some (pm', ctx') \<and> pm' \<noteq> pm
            \<longrightarrow> error ctx' = None
               \<and> outputs ctx' 0 = Some (UInt64Scalar (current_proxy_id pm))
               \<and> (\<exists>f. pm' = snd (manageProxy pm (FieldProxy (ptr f)))))
       \<and> (\<forall>pm' ctx'. getFieldByName self pm ctxn = (pm', ctx') \<and> pm' \<noteq> pm
            \<longrightarrow> error ctx' = None
               \<and> outputs ctx' 0 = Some (UInt64Scalar (current_proxy_id pm))
               \<and> (\<exists>f. pm' = snd (manageProxy pm (FieldProxy (ptr f)))))
       \<and> (num_fields (schema self) = 0 \<or> sint (Index (inputs ctx)) < 1
             \<or> sint (num_fields (schema self)) < sint (Index (inputs ctx))
            \<longrightarrow> (\<exists>ctx'. getFieldByIndex self pm ctx = Some (pm, ctx')))
       \<and> ((\<exists>st. UTF16StringToUTF8 (Name (inputs ctxn)) = Inl st)
             \<or> (\<exists>nm. UTF16StringToUTF8 (Name (inputs ctxn)) = Inr nm
                      \<and> count_list (field_names (schema self)) nm \<noteq> 1)
            \<longrightarrow> (\<exists>ctx'. getFieldByName self pm ctxn = (pm, ctx')))"
proof -
  have index: "(\<forall>pm' ctx'. getFieldByIndex self pm ctx = Some (pm', ctx') \<and> error ctx' \<noteq> None
            \<longrightarrow> pm' = pm \<and> outputs ctx' = outputs ctx)
       \<and> (\<forall>pm' ctx'. getFieldByIndex self pm ctx = Some (pm', ctx') \<and> pm' \<noteq> pm
            \<longrightarrow> error ctx' = None
               \<and> outputs ctx' 0 = Some (UInt64Scalar (current_proxy_id pm))
               \<and> (\<exists>f. pm' = snd (manageProxy pm (FieldProxy (ptr f)))))
       \<and> (num_fields (schema self) = 0 \<or> sint (Index (inputs ctx)) < 1
             \<or> sint (num_fields (schema self)) < sint (Index (inputs ctx))
            \<longrightarrow> (\<exists>ctx'. getFieldByIndex self pm ctx = Some (pm, ctx')))"
  proof (cases rule: getFieldByIndex_cases [where self = self and pm = pm and ctx = ctx])
    case (failed e)
    then show ?thesis by auto
  next
    case (succeeded f)
    have "\<not> (num_fields (schema self) = 0 \<or> sint (Index (inputs ctx)) < 1
             \<or> sint (num_fields (schema self)) < sint (Index (inputs ctx)))"
      using succeeded(2,3) by auto
    then show ?thesis
      using succeeded(1) assms(1) by auto
  qed
  have byname: "(\<forall>pm' ctx'. getFieldByName self pm ctxn = (pm', ctx') \<and> error ctx' \<noteq> None
            \<longrightarrow> pm' = pm \<and> outputs ctx' = outputs ctxn)
       \<and> (\<forall>pm' ctx'. getFieldByName self pm ctxn = (pm', ctx') \<and> pm' \<noteq> pm
            \<longrightarrow> error ctx' = None
               \<and> outputs ctx' 0 = Some (UInt64Scalar (current_proxy_id pm))
               \<and> (\<exists>f. pm' = snd (manageProxy pm (FieldProxy (ptr f)))))
       \<and> ((\<exists>st. UTF16StringToUTF8 (Name (inputs ctxn)) = Inl st)
             \<or> (\<exists>nm. UTF16StringToUTF8 (Name (inputs ctxn)) = Inr nm
                      \<and> count_list (field_names (schema self)) nm \<noteq> 1)
            \<longrightarrow> (\<exists>ctx'. getFieldByName self pm ctxn = (pm, ctx')))"
  proof (cases rule: getFieldByName_cases [where self = self and pm = pm and ctx = ctxn])
    case (unconvertible st)
    then show ?thesis by auto
  next
    case (ambiguous nm)
    then show ?thesis by auto
  next
    case (succeeded nm f)
    then show ?thesis using assms(2) by auto
  qed
  from index byname show ?thesis by blast
qed

theorem failed_lookup_leaves_registry_witness:
  "(\<exists>ctx'. getFieldByIndex (schema_of_names [''x'', ''y'']) empty_registry
              (new_Context \<lparr>Index = 3\<rparr>) = Some (empty_registry, ctx')
            \<and> error ctx' \<noteq> None)
   \<and> (\<exists>ctx'. getFieldByName (schema_of_names [''x'', ''y'']) empty_registry
              (new_Context \<lparr>Name = [0x7A]\<rparr>) = (empty_registry, ctx')
            \<and> error ctx' \<noteq> None)"
proof -
  let ?S = "schema_of_names [''x'', ''y'']"
  let ?ci = "new_Context \<lparr>Index = 3\<rparr>"
  let ?cn = "new_Context \<lparr>Name = [0x7A]\<rparr>"
  have fresh: "error ?ci = None" "error ?cn = None"
    by (simp_all add: new_Context_def)
  have n: "num_fields (schema ?S) = 2"
    by (simp add: schema_of_names_def num_fields_def)
  have z: "UTF16StringToUTF8 (Name (inputs ?cn)) = Inr ''z''"
    by (simp add: new_Context_def UTF16StringToUTF8_def is_surrogate_def utf8_encode_def
        char_of_eq_iff)
  have absent: "count_list (field_names (schema ?S)) ''z'' \<noteq> 1"
    by (simp add: schema_of_names_def field_names_def example_field_def)
  obtain pmi ci where ri: "getFieldByIndex ?S empty_registry ?ci = Some (pmi, ci)"
    and ei: "error ci \<noteq> None"
    using getFieldByIndex_invalid [of ?S ?ci empty_registry]
    by (simp add: n new_Context_def)
  obtain pmn cn where rn: "getFieldByName ?S empty_registry ?cn = (pmn, cn)"
    and en: "error cn \<noteq> None"
    using getFieldByName_ambiguous [OF z absent, of empty_registry]
    by simp
  from failed_lookup_leaves_registry [OF fresh, of ?S empty_registry] ri ei rn en
  have "pmi = empty_registry" "pmn = empty_registry"
    by blast+
  with ri ei rn en show ?thesis by blast
qed

end
